theory Spec2Isabelle
  imports Complex_Main
begin

section \<open>Hidden Markov model inference: the numpy variant of hmm.py\<close>

text \<open>
  The development embeds the classes \<open>HMM\<close> and \<open>HMMNumpy\<close> of \<open>hmm.py\<close>.
  Numbers are exact: a float64 that holds a finite value is a \<open>real\<close>, so rounding,
  overflow and underflow are not part of the model. The special values that the code
  can produce from finite inputs are kept: \<open>np.log\<close> gives \<open>-inf\<close> at 0 and \<open>nan\<close>
  below 0, and a division by a zero sum gives \<open>nan\<close> or an infinity.
\<close>

subsection \<open>Errors and arrays\<close>

datatype py_error = ValueError | IndexError | ZeroDivisionError

text \<open>
  A numpy array of any rank: its shape and its cells in row-major order. A one-dimensional
  array (\<open>w\<close>, \<open>p0\<close>, \<open>y\<close>, a row of a table) is a plain list.
\<close>

record 'a ndarray =
  shape :: "nat list"
  elems :: "'a list"

definition at2 :: "'a ndarray \<Rightarrow> nat \<Rightarrow> nat \<Rightarrow> 'a" where
  "at2 a i j = elems a ! (i * (shape a ! 1) + j)"

subsection \<open>Values of the log domain\<close>

text \<open>
  The entries of \<open>logP\<close>, \<open>logp0\<close> and \<open>pathScores\<close>. The logarithm of a finite number
  is finite, \<open>-inf\<close> or \<open>nan\<close>, and sums of such values never reach \<open>+inf\<close>.
\<close>

datatype npfloat = NaN | NInf | Fin real

definition np_log :: "real \<Rightarrow> npfloat" where
  "np_log x = (if x < 0 then NaN else if x = 0 then NInf else Fin (ln x))"

fun np_add :: "npfloat \<Rightarrow> npfloat \<Rightarrow> npfloat" where
  "np_add NaN b = NaN"
| "np_add a NaN = NaN"
| "np_add NInf b = NInf"
| "np_add a NInf = NInf"
| "np_add (Fin a) (Fin b) = Fin (a + b)"

text \<open>The comparison \<open><=\<close> of IEEE 754: false as soon as one side is \<open>nan\<close>.\<close>

fun ieee_le :: "npfloat \<Rightarrow> npfloat \<Rightarrow> bool" where
  "ieee_le NaN b = False"
| "ieee_le a NaN = False"
| "ieee_le NInf b = True"
| "ieee_le (Fin a) NInf = False"
| "ieee_le (Fin a) (Fin b) = (a \<le> b)"

text \<open>
  \<open>np.argmax\<close> on a one-dimensional array is a linear scan that keeps the running
  maximum \<open>mp\<close> and its index: an entry replaces the maximum when it is not \<open><= mp\<close>,
  and the scan stops at the first \<open>nan\<close>. \<open>np.max\<close> folds \<open>np.maximum\<close>, which
  returns \<open>nan\<close> when either side is \<open>nan\<close>. Both raise ValueError on an empty axis;
  the callers below test for that before they call the scans.
\<close>

fun argmax_scan :: "npfloat \<Rightarrow> nat \<Rightarrow> nat \<Rightarrow> npfloat list \<Rightarrow> nat" where
  "argmax_scan mp mi i [] = mi"
| "argmax_scan mp mi i (x # xs) =
     (if mp = NaN then mi
      else if \<not> ieee_le x mp then argmax_scan x i (Suc i) xs
      else argmax_scan mp mi (Suc i) xs)"

definition np_argmax :: "npfloat list \<Rightarrow> nat" where
  "np_argmax xs = (case xs of [] \<Rightarrow> 0 | x # rest \<Rightarrow> argmax_scan x 0 1 rest)"

definition np_maximum :: "npfloat \<Rightarrow> npfloat \<Rightarrow> npfloat" where
  "np_maximum a b = (if a = NaN \<or> b = NaN then NaN else if ieee_le b a then a else b)"

definition np_max :: "npfloat list \<Rightarrow> npfloat" where
  "np_max xs = (case xs of [] \<Rightarrow> NaN | x # rest \<Rightarrow> fold (\<lambda>b a. np_maximum a b) rest x)"

text \<open>
  The order in which the two reductions choose: the usual order of the extended reals,
  with \<open>nan\<close> above every number (a \<open>nan\<close> entry is the result of \<open>np.max\<close> and its
  first position the result of \<open>np.argmax\<close>). \<open>is_first_max xs i\<close> says that \<open>i\<close> is
  the least index at which \<open>xs\<close> has its greatest entry.
\<close>

fun np_total_le :: "npfloat \<Rightarrow> npfloat \<Rightarrow> bool" where
  "np_total_le a NaN = True"
| "np_total_le NaN b = False"
| "np_total_le NInf b = True"
| "np_total_le (Fin a) NInf = False"
| "np_total_le (Fin a) (Fin b) = (a \<le> b)"

definition is_first_max :: "npfloat list \<Rightarrow> nat \<Rightarrow> bool" where
  "is_first_max xs i \<longleftrightarrow>
     i < length xs \<and> (\<forall>k<length xs. np_total_le (xs ! k) (xs ! i)) \<and> (\<forall>k<i. xs ! k \<noteq> xs ! i)"

definition column :: "'a list list \<Rightarrow> nat \<Rightarrow> 'a list" where
  "column M j = map (\<lambda>row. row ! j) M"

definition np_argmax_axis0 :: "nat \<Rightarrow> npfloat list list \<Rightarrow> nat list" where
  "np_argmax_axis0 ncols M = map (\<lambda>j. np_argmax (column M j)) [0..<ncols]"

definition np_max_axis0 :: "nat \<Rightarrow> npfloat list list \<Rightarrow> npfloat list" where
  "np_max_axis0 ncols M = map (\<lambda>j. np_max (column M j)) [0..<ncols]"

subsection \<open>The class HMM\<close>

record hmm =
  w :: "real list"
  K :: nat
  P :: "real ndarray"
  logP :: "npfloat ndarray"
  p0 :: "real list"
  logp0 :: "npfloat list"

definition np_log_array :: "real ndarray \<Rightarrow> npfloat ndarray" where
  "np_log_array a = \<lparr>shape = shape a, elems = map np_log (elems a)\<rparr>"

text \<open>
  \<open>__init__\<close>: the two shape tests raise ValueError; without \<open>p0\<close> the initial
  distribution is \<open>np.ones(K)\<close> divided by its sum.
\<close>

definition HMM_init :: "real list \<Rightarrow> real ndarray \<Rightarrow> real list option \<Rightarrow> py_error + hmm" where
  "HMM_init w_arg P_arg p0_arg =
     (let k = length w_arg in
      if shape P_arg \<noteq> [k, k] then Inl ValueError
      else
        (case p0_arg of
           None \<Rightarrow>
             (let ones = replicate k (1::real);
                  p = map (\<lambda>x. x / sum_list ones) ones
              in Inr \<lparr>w = w_arg, K = k, P = P_arg, logP = np_log_array P_arg,
                      p0 = p, logp0 = map np_log p\<rparr>)
         | Some p \<Rightarrow>
             if length p \<noteq> k then Inl ValueError
             else Inr \<lparr>w = w_arg, K = k, P = P_arg, logP = np_log_array P_arg,
                       p0 = p, logp0 = map np_log p\<rparr>))"

definition log_lik :: "hmm \<Rightarrow> real \<Rightarrow> real list" where
  "log_lik m y = map (\<lambda>wk. 2 * - \<bar>y - wk\<bar>) (w m)"

definition lik :: "hmm \<Rightarrow> real \<Rightarrow> real list" where
  "lik m y = map exp (log_lik m y)"

subsection \<open>The Viterbi decoder of HMMNumpy\<close>

text \<open>
  A loop whose body may raise: the fold stops at the first error.
\<close>

fun foldE :: "('a \<Rightarrow> 's \<Rightarrow> py_error + 's) \<Rightarrow> 'a list \<Rightarrow> 's \<Rightarrow> py_error + 's" where
  "foldE f [] s = Inr s"
| "foldE f (x # xs) s = (case f x s of Inl e \<Rightarrow> Inl e | Inr s' \<Rightarrow> foldE f xs s')"

text \<open>\<open>_viterbi_partial_forward\<close>: \<open>tmpMat[i, j] = scores[i] + logP[i, j]\<close>.\<close>

definition viterbi_partial_forward :: "hmm \<Rightarrow> npfloat list \<Rightarrow> npfloat list list" where
  "viterbi_partial_forward m scores =
     map (\<lambda>i. map (\<lambda>j. np_add (scores ! i) (at2 (logP m) i j)) [0..<K m]) [0..<K m]"

definition np_add_rows :: "npfloat list \<Rightarrow> real list \<Rightarrow> npfloat list" where
  "np_add_rows a b = map2 np_add a (map Fin b)"

text \<open>
  The body of the forward loop at index \<open>t\<close> of \<open>enumerate(y[1:])\<close>, where
  \<open>yy = y[t + 1]\<close>. The reductions over axis 0 raise ValueError when \<open>tmpMat\<close> has
  no row.
\<close>

definition viterbi_step ::
  "hmm \<Rightarrow> real list \<Rightarrow> nat \<Rightarrow> nat list list \<times> npfloat list list
     \<Rightarrow> py_error + (nat list list \<times> npfloat list list)" where
  "viterbi_step m y t st =
     (case st of (pathStates, pathScores) \<Rightarrow>
        (let tmpMat = viterbi_partial_forward m (pathScores ! t) in
         if tmpMat = [] then Inl ValueError
         else Inr (pathStates[t + 1 := np_argmax_axis0 (K m) tmpMat],
                   pathScores[t + 1 := np_add_rows (np_max_axis0 (K m) tmpMat)
                                         (log_lik m (y ! (t + 1)))])))"

text \<open>
  The tables after the forward loop. Reading \<open>y[0]\<close> of an empty sequence raises
  IndexError.
\<close>

definition viterbi_tables ::
  "hmm \<Rightarrow> real list \<Rightarrow> py_error + (nat list list \<times> npfloat list list)" where
  "viterbi_tables m y =
     (let nT = length y in
      if nT = 0 then Inl IndexError
      else
        (let pathStates = replicate nT (replicate (K m) (0::nat));
             pathScores = replicate nT (replicate (K m) (Fin 0));
             pathScores = pathScores[0 := np_add_rows (logp0 m) (log_lik m (y ! 0))]
         in foldE (viterbi_step m y) [0..<nT - 1] (pathStates, pathScores)))"

text \<open>
  The body of the backtracking loop: \<open>s[t - 1] = pathStates[t, s[t]]\<close>, which raises
  IndexError when \<open>s[t]\<close> is not a column of the table.
\<close>

definition backtrack_step :: "nat list list \<Rightarrow> nat \<Rightarrow> nat list \<Rightarrow> py_error + nat list" where
  "backtrack_step pathStates t s =
     (if s ! t < length (pathStates ! t)
      then Inr (s[t - 1 := pathStates ! t ! (s ! t)])
      else Inl IndexError)"

definition viterbi_decode ::
  "hmm \<Rightarrow> real list \<Rightarrow> py_error + (nat list \<times> npfloat list list)" where
  "viterbi_decode m y =
     (case viterbi_tables m y of
        Inl e \<Rightarrow> Inl e
      | Inr (pathStates, pathScores) \<Rightarrow>
          (let nT = length y in
           if last pathScores = [] then Inl ValueError
           else
             (let s = (replicate nT (0::nat))[nT - 1 := np_argmax (last pathScores)] in
              case foldE (backtrack_step pathStates) (rev [1..<nT]) s of
                Inl e \<Rightarrow> Inl e
              | Inr s' \<Rightarrow> Inr (s', pathScores))))"

subsection \<open>Forward-backward of HMMNumpy\<close>

text \<open>
  A row of the arrays \<open>forward\<close>, \<open>backward\<close> and \<open>posterior\<close>. The inputs are finite,
  so a row holds finite numbers until a row is divided by a zero sum: that division
  gives \<open>nan\<close> (from 0/0) or an infinity in every cell. Every product of such a cell is
  again \<open>nan\<close> or an infinity (\<open>inf * 0\<close> is \<open>nan\<close>), every sum that contains one is, and
  a quotient of two of them is \<open>nan\<close>; so from there on each row computed from that row
  has no finite cell. \<open>NonFinite\<close> stands for such a row.
\<close>

datatype row = Finite "real list" | NonFinite

text \<open>\<open>tmp / np.sum(tmp)\<close>.\<close>

definition np_normalize :: "real list \<Rightarrow> row" where
  "np_normalize tmp =
     (if sum_list tmp = 0 then NonFinite else Finite (map (\<lambda>x. x / sum_list tmp) tmp))"

text \<open>\<open>np.matmul(v, P)\<close> for a vector \<open>v\<close> and the \<open>K\<close> by \<open>K\<close> matrix \<open>P\<close>.\<close>

definition np_matmul_vec :: "nat \<Rightarrow> real list \<Rightarrow> real ndarray \<Rightarrow> real list" where
  "np_matmul_vec k v a = map (\<lambda>j. \<Sum>i\<leftarrow>[0..<k]. v ! i * at2 a i j) [0..<k]"

definition np_multiply :: "real list \<Rightarrow> real list \<Rightarrow> real list" where
  "np_multiply a b = map2 (*) a b"

text \<open>\<open>np.diag(v)\<close> as a list of rows, and the matrix products of the backward pass.\<close>

definition np_diag :: "real list \<Rightarrow> real list list" where
  "np_diag v = map (\<lambda>i. map (\<lambda>j. if i = j then v ! i else 0) [0..<length v]) [0..<length v]"

definition matrix_mul_diag :: "nat \<Rightarrow> real ndarray \<Rightarrow> real list list \<Rightarrow> real list list" where
  "matrix_mul_diag k a d =
     map (\<lambda>i. map (\<lambda>j. \<Sum>l\<leftarrow>[0..<k]. at2 a i l * d ! l ! j) [0..<k]) [0..<k]"

definition matrix_mul_col :: "real list list \<Rightarrow> real list \<Rightarrow> real list" where
  "matrix_mul_col a b = map (\<lambda>r. \<Sum>j\<leftarrow>[0..<length r]. r ! j * b ! j) a"

definition forward_step :: "hmm \<Rightarrow> real list \<Rightarrow> nat \<Rightarrow> row list \<Rightarrow> row list" where
  "forward_step m y t forward =
     forward[t + 1 :=
       (case forward ! t of
          NonFinite \<Rightarrow> NonFinite
        | Finite f \<Rightarrow>
            np_normalize (np_multiply (np_matmul_vec (K m) f (P m)) (lik m (y ! t))))]"

definition backward_step :: "hmm \<Rightarrow> real list \<Rightarrow> nat \<Rightarrow> row list \<Rightarrow> row list" where
  "backward_step m y t backward =
     backward[t - 1 :=
       (case backward ! t of
          NonFinite \<Rightarrow> NonFinite
        | Finite b \<Rightarrow>
            np_normalize
              (matrix_mul_col (matrix_mul_diag (K m) (P m) (np_diag (lik m (y ! (t - 1))))) b))]"

text \<open>The arrays of \<open>nT + 1\<close> rows after the two loops, before the sentinels are cut.\<close>

definition forward_aug :: "hmm \<Rightarrow> real list \<Rightarrow> row list" where
  "forward_aug m y =
     (let nT = length y;
          forward = replicate (nT + 1) (Finite (replicate (K m) 0));
          forward = forward[0 := Finite (replicate (K m) (1 / real (K m)))]
      in fold (forward_step m y) [0..<nT] forward)"

definition backward_aug :: "hmm \<Rightarrow> real list \<Rightarrow> row list" where
  "backward_aug m y =
     (let nT = length y;
          backward = replicate (nT + 1) (Finite (replicate (K m) 0));
          backward = backward[nT := Finite (replicate (K m) (1 / real (K m)))]
      in fold (backward_step m y) (rev [1..<nT + 1]) backward)"

text \<open>One row of \<open>posterior\<close>: the product of the two rows, divided by its sum.\<close>

definition posterior_row :: "row \<Rightarrow> row \<Rightarrow> row" where
  "posterior_row f b =
     (case (f, b) of
        (Finite fv, Finite bv) \<Rightarrow> np_normalize (np_multiply fv bv)
      | _ \<Rightarrow> NonFinite)"

text \<open>
  \<open>forward_backward\<close>. The first statement that can fail is \<open>1.0 / self.K\<close>, a division
  of Python numbers, which raises ZeroDivisionError when \<open>K\<close> is 0.
\<close>

definition forward_backward ::
  "hmm \<Rightarrow> real list \<Rightarrow> py_error + (row list \<times> row list \<times> row list)" where
  "forward_backward m y =
     (if K m = 0 then Inl ZeroDivisionError
      else
        (let forward = tl (forward_aug m y);
             backward = butlast (backward_aug m y);
             posterior = map2 posterior_row forward backward
         in Inr (posterior, forward, backward)))"

subsection \<open>The recurrences of forward-backward, as the specification words them\<close>

text \<open>
  \<open>normalized u\<close> is \<open>u\<close> divided by its sum. \<open>spec_forward_row\<close> is the row that follows
  \<open>prev\<close>: the row vector \<open>prev\<close> times the transition matrix, times the likelihood of
  the observation entry by entry, normalized. \<open>spec_backward_row\<close> is the row that
  precedes \<open>nxt\<close>: the transition matrix times the diagonal matrix of the likelihood times
  the column \<open>nxt\<close>, normalized. The likelihood of state \<open>j\<close> is \<open>exp (-2 * |y - w[j]|)\<close>.
\<close>

definition normalized :: "real list \<Rightarrow> row" where
  "normalized u = (if sum_list u = 0 then NonFinite else Finite (map (\<lambda>x. x / sum_list u) u))"

definition spec_forward_row :: "real list \<Rightarrow> real ndarray \<Rightarrow> real \<Rightarrow> row \<Rightarrow> row" where
  "spec_forward_row ws tr yt prev =
     (case prev of
        NonFinite \<Rightarrow> NonFinite
      | Finite f \<Rightarrow>
          normalized
            (map (\<lambda>j. (\<Sum>i<length ws. f ! i * at2 tr i j) * exp (- 2 * \<bar>yt - ws ! j\<bar>))
               [0..<length ws]))"

definition spec_backward_row :: "real list \<Rightarrow> real ndarray \<Rightarrow> real \<Rightarrow> row \<Rightarrow> row" where
  "spec_backward_row ws tr yt nxt =
     (case nxt of
        NonFinite \<Rightarrow> NonFinite
      | Finite b \<Rightarrow>
          normalized
            (map (\<lambda>i. \<Sum>j<length ws.
                     (\<Sum>l<length ws.
                        at2 tr i l * (if l = j then exp (- 2 * \<bar>yt - ws ! l\<bar>) else 0)) * b ! j)
               [0..<length ws]))"

subsection \<open>The Viterbi recurrence, as the specification words it\<close>

text \<open>
  \<open>spec_candidates m prev j\<close> is column \<open>j\<close> of the matrix
  \<open>M[i][j] = prev[i] + logTransition[i][j]\<close>: the scores of reaching state \<open>j\<close> from
  each state \<open>i\<close>. \<open>has_step_1_0 s\<close> says that the path \<open>s\<close> goes from state 1 to state 0
  at two adjacent time steps.
\<close>

definition spec_candidates :: "hmm \<Rightarrow> npfloat list \<Rightarrow> nat \<Rightarrow> npfloat list" where
  "spec_candidates m prev j = map (\<lambda>i. np_add (prev ! i) (at2 (logP m) i j)) [0..<K m]"

fun has_step_1_0 :: "nat list \<Rightarrow> bool" where
  "has_step_1_0 (a # b # xs) = ((a = 1 \<and> b = 0) \<or> has_step_1_0 (b # xs))"
| "has_step_1_0 xs = False"

subsection \<open>The example of the driver\<close>

text \<open>
  The model and the observations of \<open>gradient_hmm\<close> and of the main block: two states
  with means 0 and 1, and no way back from state 1 to state 0. \<open>wide_P\<close> is a
  transition array with one column too many.
\<close>

definition toy_w :: "real list" where
  "toy_w = [0, 1]"

definition toy_P :: "real ndarray" where
  "toy_P = \<lparr>shape = [2, 2], elems = [1 / 2, 1 / 2, 0, 1]\<rparr>"

definition toy_y :: "real list" where
  "toy_y = [0, 1, 0, 0, 1, 1, 1, 1, 1]"

definition toy_hmm :: hmm where
  "toy_hmm = \<lparr>w = toy_w, K = 2, P = toy_P, logP = np_log_array toy_P,
              p0 = [1 / 2, 1 / 2], logp0 = map np_log [1 / 2, 1 / 2]\<rparr>"

definition wide_P :: "real ndarray" where
  "wide_P = \<lparr>shape = [2, 3], elems = [1 / 2, 1 / 2, 0, 0, 1, 0]\<rparr>"

section \<open>Properties\<close>

subsection \<open>The reductions\<close>

lemma np_total_le_refl: "np_total_le a a"
  by (cases a) simp_all

lemma np_total_le_trans: "np_total_le a b \<Longrightarrow> np_total_le b c \<Longrightarrow> np_total_le a c"
  by (cases a; cases b; cases c) simp_all

lemma np_total_le_linear: "np_total_le a b \<or> np_total_le b a"
  by (cases a; cases b) auto

lemma np_total_le_antisym: "np_total_le a b \<Longrightarrow> np_total_le b a \<Longrightarrow> a = b"
  by (cases a; cases b) simp_all

lemma ieee_le_total: "mp \<noteq> NaN \<Longrightarrow> ieee_le x mp = np_total_le x mp"
  by (cases x; cases mp) simp_all

lemma np_maximum_total: "np_maximum a b = (if np_total_le b a then a else b)"
  by (cases a; cases b) (simp_all add: np_maximum_def)

lemma argmax_scan_spec:
  assumes "i + length rest = length zs"
    and "\<forall>k<length rest. zs ! (i + k) = rest ! k"
    and "mi < i" and "zs ! mi = mp"
    and "\<forall>k<i. np_total_le (zs ! k) mp"
    and "\<forall>k<mi. zs ! k \<noteq> mp"
  shows "argmax_scan mp mi i rest < length zs \<and>
         (\<forall>k<length zs. np_total_le (zs ! k) (zs ! argmax_scan mp mi i rest)) \<and>
         (\<forall>k<argmax_scan mp mi i rest. zs ! k \<noteq> zs ! argmax_scan mp mi i rest)"
  using assms
proof (induction rest arbitrary: mp mi i)
  case Nil
  then show ?case by simp
next
  case (Cons x xs)
  have zi: "zs ! i = x" using Cons.prems(2) by (metis add.right_neutral length_Cons nth_Cons_0 zero_less_Suc)
  have len: "Suc i + length xs = length zs" using Cons.prems(1) by simp
  have tl: "\<forall>k<length xs. zs ! (Suc i + k) = xs ! k"
  proof (intro allI impI)
    fix k assume "k < length xs"
    then have "zs ! (i + Suc k) = (x # xs) ! Suc k" using Cons.prems(2) by (metis Suc_less_eq length_Cons)
    then show "zs ! (Suc i + k) = xs ! k" by simp
  qed
  show ?case
  proof (cases "mp = NaN")
    case True
    then show ?thesis using Cons.prems by simp
  next
    case nn: False
    show ?thesis
    proof (cases "ieee_le x mp")
      case True
      then have le: "np_total_le x mp" using nn by (simp add: ieee_le_total)
      have a: "\<forall>k<Suc i. np_total_le (zs ! k) mp"
        using Cons.prems(5) le zi by (auto simp: less_Suc_eq)
      have "mi < Suc i" using Cons.prems(3) by simp
      from Cons.IH[OF len tl this Cons.prems(4) a Cons.prems(6)]
      show ?thesis using nn True by simp
    next
      case False
      then have nle: "\<not> np_total_le x mp" using nn by (simp add: ieee_le_total)
      then have mpx: "np_total_le mp x" using np_total_le_linear by blast
      have a: "\<forall>k<Suc i. np_total_le (zs ! k) x"
        using Cons.prems(5) mpx zi np_total_le_trans np_total_le_refl by (auto simp: less_Suc_eq)
      have b: "\<forall>k<i. zs ! k \<noteq> x" using Cons.prems(5) nle by auto
      from Cons.IH[OF len tl _ zi a b]
      show ?thesis using nn False by simp
    qed
  qed
qed

lemma np_argmax_first_max: "xs \<noteq> [] \<Longrightarrow> is_first_max xs (np_argmax xs)"
proof -
  assume "xs \<noteq> []"
  then obtain x rest where xs: "xs = x # rest" by (cases xs) auto
  have "argmax_scan x 0 1 rest < length xs \<and>
        (\<forall>k<length xs. np_total_le (xs ! k) (xs ! argmax_scan x 0 1 rest)) \<and>
        (\<forall>k<argmax_scan x 0 1 rest. xs ! k \<noteq> xs ! argmax_scan x 0 1 rest)"
    by (rule argmax_scan_spec) (simp_all add: xs np_total_le_refl)
  then show ?thesis by (simp add: is_first_max_def np_argmax_def xs)
qed

lemma fold_np_maximum:
  "fold (\<lambda>b a. np_maximum a b) rest x \<in> set (x # rest) \<and>
   (\<forall>z\<in>set (x # rest). np_total_le z (fold (\<lambda>b a. np_maximum a b) rest x))"
proof (induction rest arbitrary: x)
  case Nil
  then show ?case by (simp add: np_total_le_refl)
next
  case (Cons r rest)
  let ?x' = "np_maximum x r"
  have x': "?x' = x \<or> ?x' = r" by (simp add: np_maximum_total)
  have ge: "np_total_le x ?x'" "np_total_le r ?x'"
    using np_total_le_linear[of x r] by (auto simp: np_maximum_total np_total_le_refl)
  from Cons.IH[of ?x'] have mem: "fold (\<lambda>b a. np_maximum a b) rest ?x' \<in> set (?x' # rest)"
    and up: "\<forall>z\<in>set (?x' # rest). np_total_le z (fold (\<lambda>b a. np_maximum a b) rest ?x')"
    by blast+
  have "np_total_le ?x' (fold (\<lambda>b a. np_maximum a b) rest ?x')" using up by simp
  then have "np_total_le x (fold (\<lambda>b a. np_maximum a b) rest ?x')"
    and "np_total_le r (fold (\<lambda>b a. np_maximum a b) rest ?x')"
    using ge np_total_le_trans by blast+
  then show ?case using mem up x' by auto
qed

lemma np_max_greatest:
  assumes "xs \<noteq> []"
  shows "np_max xs \<in> set xs" and "\<forall>z\<in>set xs. np_total_le z (np_max xs)"
proof -
  obtain x rest where xs: "xs = x # rest" using assms by (cases xs) auto
  show "np_max xs \<in> set xs" using fold_np_maximum[of rest x] by (simp add: np_max_def xs)
  show "\<forall>z\<in>set xs. np_total_le z (np_max xs)"
    using fold_np_maximum[of rest x] by (simp add: np_max_def xs)
qed

lemma np_max_at_argmax: "xs \<noteq> [] \<Longrightarrow> xs ! np_argmax xs = np_max xs"
proof -
  assume ne: "xs \<noteq> []"
  have fm: "is_first_max xs (np_argmax xs)" using ne by (rule np_argmax_first_max)
  then have lt: "np_argmax xs < length xs" by (simp add: is_first_max_def)
  obtain k where k: "k < length xs" "xs ! k = np_max xs"
    using np_max_greatest(1)[OF ne] by (auto simp: in_set_conv_nth)
  have "np_total_le (np_max xs) (xs ! np_argmax xs)" using fm k by (auto simp: is_first_max_def)
  moreover have "np_total_le (xs ! np_argmax xs) (np_max xs)"
    using np_max_greatest(2)[OF ne] lt by simp
  ultimately show ?thesis by (simp add: np_total_le_antisym)
qed

lemma foldE_fold:
  assumes "\<And>x s. x \<in> set xs \<Longrightarrow> I s \<Longrightarrow> f x s = Inr (g x s) \<and> I (g x s)"
    and "I s"
  shows "foldE f xs s = Inr (fold g xs s) \<and> I (fold g xs s)"
  using assms
proof (induction xs arbitrary: s)
  case Nil
  then show ?case by simp
next
  case (Cons x xs)
  have st: "f x s = Inr (g x s)" "I (g x s)" using Cons.prems by auto
  have "foldE f xs (g x s) = Inr (fold g xs (g x s)) \<and> I (fold g xs (g x s))"
    by (rule Cons.IH) (use Cons.prems st in auto)
  then show ?case using st by simp
qed

lemma fold_ascending:
  assumes step: "\<And>t a. f t a = a[Suc t := g t (a ! t)]"
    and "n < length a0"
  shows "length (fold f [0..<n] a0) = length a0 \<and>
         fold f [0..<n] a0 ! 0 = a0 ! 0 \<and>
         (\<forall>t<n. fold f [0..<n] a0 ! Suc t = g t (fold f [0..<n] a0 ! t)) \<and>
         (\<forall>j>n. fold f [0..<n] a0 ! j = a0 ! j)"
  using assms(2)
proof (induction n)
  case 0
  then show ?case by simp
next
  case (Suc n)
  let ?r = "fold f [0..<n] a0"
  have ih: "length ?r = length a0" "?r ! 0 = a0 ! 0"
    "\<forall>t<n. ?r ! Suc t = g t (?r ! t)" "\<forall>j>n. ?r ! j = a0 ! j"
    using Suc by simp_all
  have eq: "fold f [0..<Suc n] a0 = ?r[Suc n := g n (?r ! n)]" by (simp add: step)
  show ?case unfolding eq using ih Suc.prems
    by (auto simp: nth_list_update less_Suc_eq)
qed

lemma fold_descending:
  assumes step: "\<And>t a. f t a = a[t - 1 := g t (a ! t)]"
    and "n < length a0"
  shows "length (fold f (rev [1..<Suc n]) a0) = length a0 \<and>
         (\<forall>t. 1 \<le> t \<and> t \<le> n \<longrightarrow>
            fold f (rev [1..<Suc n]) a0 ! (t - 1) = g t (fold f (rev [1..<Suc n]) a0 ! t)) \<and>
         (\<forall>j\<ge>n. fold f (rev [1..<Suc n]) a0 ! j = a0 ! j)"
  using assms(2)
proof (induction n arbitrary: a0)
  case 0
  then show ?case by simp
next
  case (Suc n)
  let ?a1 = "a0[n := g (Suc n) (a0 ! Suc n)]"
  let ?r = "fold f (rev [1..<Suc n]) ?a1"
  have eq: "fold f (rev [1..<Suc (Suc n)]) a0 = ?r" by (simp add: step)
  have "n < length ?a1" using Suc.prems by simp
  from Suc.IH[OF this]
  have ih: "length ?r = length a0"
    "\<forall>t. 1 \<le> t \<and> t \<le> n \<longrightarrow> ?r ! (t - 1) = g t (?r ! t)"
    "\<forall>j\<ge>n. ?r ! j = ?a1 ! j"
    by simp_all
  have rn: "?r ! n = g (Suc n) (a0 ! Suc n)" using ih(3) Suc.prems by simp
  have rsn: "?r ! Suc n = a0 ! Suc n" using ih(3) by simp
  have top: "\<forall>j\<ge>Suc n. ?r ! j = a0 ! j" using ih(3) by simp
  have "\<forall>t. 1 \<le> t \<and> t \<le> Suc n \<longrightarrow> ?r ! (t - 1) = g t (?r ! t)"
  proof (intro allI impI)
    fix t assume t: "1 \<le> t \<and> t \<le> Suc n"
    show "?r ! (t - 1) = g t (?r ! t)"
    proof (cases "t = Suc n")
      case True
      then show ?thesis using rn rsn by simp
    next
      case False
      then show ?thesis using t ih(2) by simp
    qed
  qed
  then show ?case unfolding eq using ih(1) top by simp
qed

subsection \<open>Construction and likelihoods\<close>

lemma toy_init: "HMM_init toy_w toy_P None = Inr toy_hmm"
  by (simp add: HMM_init_def toy_w_def toy_P_def toy_hmm_def Let_def)

lemma toy_init_p0: "HMM_init toy_w toy_P (Some [1 / 4, 3 / 4]) =
   Inr (toy_hmm\<lparr>p0 := [1 / 4, 3 / 4], logp0 := map np_log [1 / 4, 3 / 4]\<rparr>)"
  by (simp add: HMM_init_def toy_w_def toy_P_def toy_hmm_def Let_def)

lemma init_fields:
  assumes "HMM_init ws tr d = Inr m"
  shows "w m = ws" and "K m = length ws" and "P m = tr" and "logP m = np_log_array tr"
    and "shape tr = [length ws, length ws]" and "length (p0 m) = length ws"
    and "logp0 m = map np_log (p0 m)"
  using assms
  by (auto simp: HMM_init_def Let_def split: if_splits option.splits)

text \<open>
  C5: the constructor raises an error, and returns no model, when the shape of the
  transition array is not \<open>(K, K)\<close> or when an initial distribution is given whose length
  is not \<open>K\<close>, where \<open>K\<close> is the number of emission parameters; in particular for a
  transition array of shape \<open>(K, K + 1)\<close> and for an initial distribution of length
  \<open>K - 1\<close>.
\<close>

theorem init_shape_mismatch:
  "(shape tr \<noteq> [length ws, length ws] \<longrightarrow> HMM_init ws tr d = Inl ValueError) \<and>
   (\<forall>p. d = Some p \<and> length p \<noteq> length ws \<longrightarrow> HMM_init ws tr d = Inl ValueError) \<and>
   (shape tr = [length ws, length ws + 1] \<longrightarrow> HMM_init ws tr d = Inl ValueError) \<and>
   (\<forall>p. d = Some p \<and> length p + 1 = length ws \<longrightarrow> HMM_init ws tr d = Inl ValueError)"
  by (auto simp: HMM_init_def Let_def)

theorem init_shape_mismatch_witness:
  "shape wide_P = [length toy_w, length toy_w + 1] \<and>
   shape wide_P \<noteq> [length toy_w, length toy_w] \<and>
   HMM_init toy_w wide_P None = Inl ValueError \<and>
   length [1::real] + 1 = length toy_w \<and> length [1::real] \<noteq> length toy_w \<and>
   HMM_init toy_w toy_P (Some [1]) = Inl ValueError"
proof -
  have a: "shape wide_P = [length toy_w, length toy_w + 1]" by (simp add: wide_P_def toy_w_def)
  have b: "length [1::real] + 1 = length toy_w" by (simp add: toy_w_def)
  show ?thesis
    using a b init_shape_mismatch[of wide_P toy_w None] init_shape_mismatch[of toy_P toy_w "Some [1]"]
    by simp
qed

text \<open>
  C9: for a constructed model and an observation \<open>y\<close>, \<open>log_lik\<close> is the vector of
  length \<open>K\<close> whose entry \<open>k\<close> is \<open>-2 * |y - w[k]|\<close>, and \<open>lik\<close> is its exponential,
  entry by entry. Both are functions of the model and the observation alone.
\<close>

theorem log_lik_formula:
  assumes "HMM_init ws tr d = Inr m"
  shows "K m = length ws \<and> length (log_lik m y) = K m \<and> length (lik m y) = K m \<and>
         (\<forall>k<K m. log_lik m y ! k = - 2 * \<bar>y - ws ! k\<bar> \<and> lik m y ! k = exp (log_lik m y ! k))"
  using init_fields(1,2)[OF assms] by (simp add: log_lik_def lik_def)

theorem log_lik_formula_witness:
  "HMM_init toy_w toy_P None = Inr toy_hmm \<and> K toy_hmm = length toy_w \<and>
   length (log_lik toy_hmm 3) = K toy_hmm \<and> length (lik toy_hmm 3) = K toy_hmm \<and>
   1 < K toy_hmm \<and> log_lik toy_hmm 3 ! 1 = - 2 * \<bar>3 - toy_w ! 1\<bar> \<and>
   lik toy_hmm 3 ! 1 = exp (log_lik toy_hmm 3 ! 1)"
proof -
  have k: "1 < K toy_hmm" by (simp add: toy_hmm_def)
  note f = log_lik_formula[OF toy_init, of 3]
  from f have "\<forall>k<K toy_hmm. log_lik toy_hmm 3 ! k = - 2 * \<bar>3 - toy_w ! k\<bar> \<and>
      lik toy_hmm 3 ! k = exp (log_lik toy_hmm 3 ! k)"
    by blast
  with k have "log_lik toy_hmm 3 ! 1 = - 2 * \<bar>3 - toy_w ! 1\<bar> \<and>
      lik toy_hmm 3 ! 1 = exp (log_lik toy_hmm 3 ! 1)"
    by blast
  then show ?thesis using f k toy_init by blast
qed

subsection \<open>Forward-backward does not read the initial distribution\<close>

lemma forward_backward_cong:
  assumes "K m1 = K m2" and "P m1 = P m2" and "w m1 = w m2"
  shows "forward_backward m1 y = forward_backward m2 y"
proof -
  have l: "lik m1 = lik m2" using assms(3) by (intro ext) (simp add: lik_def log_lik_def)
  have f: "forward_step m1 y = forward_step m2 y"
    using assms l by (intro ext) (simp add: forward_step_def split: row.splits)
  have b: "backward_step m1 y = backward_step m2 y"
    using assms l by (intro ext) (simp add: backward_step_def split: row.splits)
  show ?thesis using assms f b by (simp add: forward_backward_def forward_aug_def backward_aug_def)
qed

text \<open>
  C10: two models built from the same emission parameters and the same transition array,
  with any two initial distributions, give the same result of \<open>forward_backward\<close> on
  every observation sequence.
\<close>

theorem forward_backward_ignores_p0:
  assumes "HMM_init ws tr d1 = Inr m1" and "HMM_init ws tr d2 = Inr m2"
  shows "forward_backward m1 y = forward_backward m2 y"
  using init_fields(1,2,3)[OF assms(1)] init_fields(1,2,3)[OF assms(2)]
  by (intro forward_backward_cong) simp_all

theorem forward_backward_ignores_p0_witness:
  "HMM_init toy_w toy_P None = Inr toy_hmm \<and>
   HMM_init toy_w toy_P (Some [1 / 4, 3 / 4]) =
     Inr (toy_hmm\<lparr>p0 := [1 / 4, 3 / 4], logp0 := map np_log [1 / 4, 3 / 4]\<rparr>) \<and>
   forward_backward toy_hmm toy_y =
     forward_backward (toy_hmm\<lparr>p0 := [1 / 4, 3 / 4], logp0 := map np_log [1 / 4, 3 / 4]\<rparr>) toy_y"
  using forward_backward_ignores_p0[OF toy_init toy_init_p0, of toy_y] toy_init toy_init_p0
  by simp

subsection \<open>The empty observation sequence\<close>

lemma forward_backward_empty:
  "forward_backward m [] = (if K m = 0 then Inl ZeroDivisionError else Inr ([], [], []))"
  by (simp add: forward_backward_def forward_aug_def backward_aug_def)

lemma viterbi_decode_empty: "viterbi_decode m [] = Inl IndexError"
  by (simp add: viterbi_decode_def viterbi_tables_def)

text \<open>
  C8 reads: on an empty observation sequence both \<open>forward_backward\<close> and
  \<open>viterbi_decode\<close> fail with a validation error at entry. For the model of the driver,
  \<open>forward_backward\<close> returns three empty arrays.
\<close>

theorem empty_sequence_counterexample:
  "HMM_init toy_w toy_P None = Inr toy_hmm \<and> forward_backward toy_hmm [] = Inr ([], [], [])"
  using toy_init by (simp add: forward_backward_empty toy_hmm_def)

text \<open>
  C8, as the code has it: neither routine tests for an empty sequence. On it,
  \<open>forward_backward\<close> returns three empty arrays (when the model has no state it raises
  ZeroDivisionError at \<open>1.0 / self.K\<close>), and \<open>viterbi_decode\<close> raises the IndexError of
  reading \<open>y[0]\<close>.
\<close>

theorem empty_sequence_behaviour:
  assumes "HMM_init ws tr d = Inr m"
  shows "forward_backward m [] = (if ws = [] then Inl ZeroDivisionError else Inr ([], [], [])) \<and>
         viterbi_decode m [] = Inl IndexError"
  using init_fields(2)[OF assms] by (simp add: forward_backward_empty viterbi_decode_empty)

theorem empty_sequence_behaviour_witness:
  "HMM_init toy_w toy_P None = Inr toy_hmm \<and>
   forward_backward toy_hmm [] = (if toy_w = [] then Inl ZeroDivisionError else Inr ([], [], [])) \<and>
   viterbi_decode toy_hmm [] = Inl IndexError"
  using empty_sequence_behaviour[OF toy_init] toy_init by simp

subsection \<open>The two passes of forward-backward\<close>

lemma sum_list_upt: "(\<Sum>i\<leftarrow>[0..<k]. g i) = (\<Sum>i<k. (g i :: real))"
  by (simp add: interv_sum_list_conv_sum_set_nat lessThan_atLeast0)

lemma np_normalize_eq: "np_normalize u = normalized u"
  by (simp add: np_normalize_def normalized_def)

lemma forward_row_spec:
  assumes "w m = ws" and "K m = length ws" and "P m = tr"
  shows "(case prev of NonFinite \<Rightarrow> NonFinite
          | Finite f \<Rightarrow> np_normalize (np_multiply (np_matmul_vec (K m) f (P m)) (lik m yt)))
         = spec_forward_row ws tr yt prev"
proof (cases prev)
  case NonFinite
  then show ?thesis by (simp add: spec_forward_row_def)
next
  case (Finite f)
  have "np_multiply (np_matmul_vec (K m) f (P m)) (lik m yt) =
        map (\<lambda>j. (\<Sum>i<length ws. f ! i * at2 tr i j) * exp (- 2 * \<bar>yt - ws ! j\<bar>)) [0..<length ws]"
    using assms
    by (intro nth_equalityI)
       (simp_all add: np_multiply_def np_matmul_vec_def lik_def log_lik_def sum_list_upt)
  then show ?thesis using Finite by (simp add: spec_forward_row_def np_normalize_eq)
qed

lemma backward_row_spec:
  assumes "w m = ws" and "K m = length ws" and "P m = tr"
  shows "(case nxt of NonFinite \<Rightarrow> NonFinite
          | Finite b \<Rightarrow> np_normalize
              (matrix_mul_col (matrix_mul_diag (K m) (P m) (np_diag (lik m yt))) b))
         = spec_backward_row ws tr yt nxt"
proof (cases nxt)
  case NonFinite
  then show ?thesis by (simp add: spec_backward_row_def)
next
  case (Finite b)
  have "matrix_mul_col (matrix_mul_diag (K m) (P m) (np_diag (lik m yt))) b =
        map (\<lambda>i. \<Sum>j<length ws.
                 (\<Sum>l<length ws. at2 tr i l * (if l = j then exp (- 2 * \<bar>yt - ws ! l\<bar>) else 0)) * b ! j)
          [0..<length ws]"
  proof (intro nth_equalityI)
    show "length (matrix_mul_col (matrix_mul_diag (K m) (P m) (np_diag (lik m yt))) b) =
          length (map (\<lambda>i. \<Sum>j<length ws.
                 (\<Sum>l<length ws. at2 tr i l * (if l = j then exp (- 2 * \<bar>yt - ws ! l\<bar>) else 0)) * b ! j)
          [0..<length ws])"
      using assms by (simp add: matrix_mul_col_def matrix_mul_diag_def)
  next
    fix i assume "i < length (matrix_mul_col (matrix_mul_diag (K m) (P m) (np_diag (lik m yt))) b)"
    then have i: "i < length ws" using assms by (simp add: matrix_mul_col_def matrix_mul_diag_def)
    have d: "np_diag (lik m yt) ! l ! j = (if l = j then exp (- 2 * \<bar>yt - ws ! l\<bar>) else 0)"
      if "l < length ws" "j < length ws" for l j
      using that assms by (simp add: np_diag_def lik_def log_lik_def)
    have "matrix_mul_col (matrix_mul_diag (K m) (P m) (np_diag (lik m yt))) b ! i =
          (\<Sum>j<length ws. (\<Sum>l<length ws. at2 tr i l * np_diag (lik m yt) ! l ! j) * b ! j)"
      using i assms
      by (simp add: matrix_mul_col_def matrix_mul_diag_def sum_list_upt cong: sum.cong_simp)
    also have "\<dots> = (\<Sum>j<length ws.
        (\<Sum>l<length ws. at2 tr i l * (if l = j then exp (- 2 * \<bar>yt - ws ! l\<bar>) else 0)) * b ! j)"
      by (intro sum.cong refl arg_cong2[where f="(*)"]) (simp_all add: d)
    finally show "matrix_mul_col (matrix_mul_diag (K m) (P m) (np_diag (lik m yt))) b ! i =
        map (\<lambda>i. \<Sum>j<length ws.
                 (\<Sum>l<length ws. at2 tr i l * (if l = j then exp (- 2 * \<bar>yt - ws ! l\<bar>) else 0)) * b ! j)
          [0..<length ws] ! i"
      using i by simp
  qed
  then show ?thesis using Finite by (simp add: spec_backward_row_def np_normalize_eq)
qed

lemma forward_aug_facts:
  assumes "w m = ws" and "K m = length ws" and "P m = tr"
  shows "length (forward_aug m y) = length y + 1"
    and "forward_aug m y ! 0 = Finite (replicate (length ws) (1 / real (length ws)))"
    and "\<forall>t<length y. forward_aug m y ! (t + 1) = spec_forward_row ws tr (y ! t) (forward_aug m y ! t)"
proof -
  define a0 where "a0 = (replicate (length y + 1) (Finite (replicate (K m) 0)))
               [0 := Finite (replicate (K m) (1 / real (K m)))]"
  let ?g = "\<lambda>t prev. spec_forward_row ws tr (y ! t) prev"
  have len: "length a0 = length y + 1"
    unfolding a0_def by (simp only: length_list_update length_replicate)
  have a00: "a0 ! 0 = Finite (replicate (K m) (1 / real (K m)))"
    unfolding a0_def by (rule nth_list_update_eq) (simp del: replicate_Suc)
  have step: "\<And>t a. forward_step m y t a = a[Suc t := ?g t (a ! t)]"
    by (simp add: forward_step_def forward_row_spec[OF assms])
  have "length y < length a0" using len by simp
  from fold_ascending[of "forward_step m y" ?g, OF step this]
  have f: "length (fold (forward_step m y) [0..<length y] a0) = length a0"
    "fold (forward_step m y) [0..<length y] a0 ! 0 = a0 ! 0"
    "\<forall>t<length y. fold (forward_step m y) [0..<length y] a0 ! Suc t =
        ?g t (fold (forward_step m y) [0..<length y] a0 ! t)"
    by blast+
  have aug: "forward_aug m y = fold (forward_step m y) [0..<length y] a0"
    unfolding forward_aug_def a0_def Let_def by (rule refl)
  show "length (forward_aug m y) = length y + 1" using f(1) aug len by simp
  show "forward_aug m y ! 0 = Finite (replicate (length ws) (1 / real (length ws)))"
    using f(2) aug assms(2) a00 by simp
  show "\<forall>t<length y. forward_aug m y ! (t + 1) = spec_forward_row ws tr (y ! t) (forward_aug m y ! t)"
    using f(3) aug by simp
qed

lemma backward_aug_facts:
  assumes "w m = ws" and "K m = length ws" and "P m = tr"
  shows "length (backward_aug m y) = length y + 1"
    and "backward_aug m y ! length y = Finite (replicate (length ws) (1 / real (length ws)))"
    and "\<forall>t. 1 \<le> t \<and> t \<le> length y \<longrightarrow>
           backward_aug m y ! (t - 1) = spec_backward_row ws tr (y ! (t - 1)) (backward_aug m y ! t)"
proof -
  define a0 where "a0 = (replicate (length y + 1) (Finite (replicate (K m) 0)))
               [length y := Finite (replicate (K m) (1 / real (K m)))]"
  let ?g = "\<lambda>t nxt. spec_backward_row ws tr (y ! (t - 1)) nxt"
  have len: "length a0 = length y + 1"
    unfolding a0_def by (simp only: length_list_update length_replicate)
  have a0n: "a0 ! length y = Finite (replicate (K m) (1 / real (K m)))"
    unfolding a0_def by (rule nth_list_update_eq) (simp del: replicate_Suc)
  have step: "\<And>t a. backward_step m y t a = a[t - 1 := ?g t (a ! t)]"
    by (simp add: backward_step_def backward_row_spec[OF assms])
  have "length y < length a0" using len by simp
  from fold_descending[of "backward_step m y" ?g, OF step this]
  have f: "length (fold (backward_step m y) (rev [1..<Suc (length y)]) a0) = length a0"
    "\<forall>t. 1 \<le> t \<and> t \<le> length y \<longrightarrow>
       fold (backward_step m y) (rev [1..<Suc (length y)]) a0 ! (t - 1) =
       ?g t (fold (backward_step m y) (rev [1..<Suc (length y)]) a0 ! t)"
    "\<forall>j\<ge>length y. fold (backward_step m y) (rev [1..<Suc (length y)]) a0 ! j = a0 ! j"
    by blast+
  have aug: "backward_aug m y = fold (backward_step m y) (rev [1..<Suc (length y)]) a0"
    unfolding backward_aug_def a0_def Let_def by (simp only: Suc_eq_plus1)
  show "length (backward_aug m y) = length y + 1" using f(1) aug len by simp
  show "backward_aug m y ! length y = Finite (replicate (length ws) (1 / real (length ws)))"
    using f(3) aug assms(2) a0n by simp
  show "\<forall>t. 1 \<le> t \<and> t \<le> length y \<longrightarrow>
           backward_aug m y ! (t - 1) = spec_backward_row ws tr (y ! (t - 1)) (backward_aug m y ! t)"
    using f(2) aug by simp
qed

lemma forward_backward_result:
  assumes "K m \<noteq> 0"
  shows "forward_backward m y =
         Inr (map2 posterior_row (tl (forward_aug m y)) (butlast (backward_aug m y)),
              tl (forward_aug m y), butlast (backward_aug m y))"
  using assms by (simp add: forward_backward_def Let_def)

text \<open>
  C2: for a constructed model with at least one state and a non-empty observation sequence
  of length \<open>T\<close>, the forward loop leaves an array of \<open>T + 1\<close> rows whose row 0 is the
  uniform vector \<open>1 / K\<close> and whose row \<open>t + 1\<close> is row \<open>t\<close> times the transition matrix,
  times the likelihood of \<open>y[t]\<close> entry by entry, divided by the sum of that vector; the
  returned \<open>forward\<close> is this array without row 0, so it has \<open>T\<close> rows and its row \<open>t\<close>
  belongs to \<open>y[t]\<close>.
\<close>

theorem forward_pass_recurrence:
  assumes "HMM_init ws tr d = Inr m" and "ws \<noteq> []" and "y \<noteq> []"
  shows "\<exists>posterior forward backward.
           forward_backward m y = Inr (posterior, forward, backward) \<and>
           length (forward_aug m y) = length y + 1 \<and>
           forward_aug m y ! 0 = Finite (replicate (length ws) (1 / real (length ws))) \<and>
           (\<forall>t<length y.
              forward_aug m y ! (t + 1) = spec_forward_row ws tr (y ! t) (forward_aug m y ! t)) \<and>
           length forward = length y \<and>
           (\<forall>t<length y. forward ! t = forward_aug m y ! (t + 1))"
proof -
  note fl = init_fields(1,2,3)[OF assms(1)]
  note fa = forward_aug_facts[OF fl, of y]
  have k: "K m \<noteq> 0" using fl(2) assms(2) by simp
  have "length (tl (forward_aug m y)) = length y" using fa(1) by simp
  moreover have "\<forall>t<length y. tl (forward_aug m y) ! t = forward_aug m y ! (t + 1)"
    using fa(1) by (simp add: nth_tl)
  ultimately show ?thesis using forward_backward_result[OF k, of y] fa by blast
qed

theorem forward_pass_recurrence_witness:
  "HMM_init toy_w toy_P None = Inr toy_hmm \<and> toy_w \<noteq> [] \<and> toy_y \<noteq> [] \<and>
   (\<exists>posterior forward backward.
      forward_backward toy_hmm toy_y = Inr (posterior, forward, backward) \<and>
      length (forward_aug toy_hmm toy_y) = length toy_y + 1 \<and>
      forward_aug toy_hmm toy_y ! 0 = Finite (replicate (length toy_w) (1 / real (length toy_w))) \<and>
      (\<forall>t<length toy_y.
         forward_aug toy_hmm toy_y ! (t + 1) =
           spec_forward_row toy_w toy_P (toy_y ! t) (forward_aug toy_hmm toy_y ! t)) \<and>
      length forward = length toy_y \<and>
      (\<forall>t<length toy_y. forward ! t = forward_aug toy_hmm toy_y ! (t + 1)))"
proof -
  have a: "toy_w \<noteq> []" by (simp add: toy_w_def)
  have b: "toy_y \<noteq> []" by (simp add: toy_y_def)
  show ?thesis using forward_pass_recurrence[OF toy_init a b] toy_init a b by blast
qed

text \<open>
  C3: for a constructed model with at least one state and a non-empty observation sequence
  of length \<open>T\<close>, the backward loop leaves an array of \<open>T + 1\<close> rows whose row \<open>T\<close> is the
  uniform vector \<open>1 / K\<close> and whose row \<open>t - 1\<close>, for \<open>t\<close> from \<open>T\<close> down to 1, is the
  transition matrix times the diagonal matrix of the likelihood of \<open>y[t - 1]\<close> times the
  column of row \<open>t\<close>, divided by its sum; the returned \<open>backward\<close> is this array without
  row \<open>T\<close>, so it has \<open>T\<close> rows.
\<close>

theorem backward_pass_recurrence:
  assumes "HMM_init ws tr d = Inr m" and "ws \<noteq> []" and "y \<noteq> []"
  shows "\<exists>posterior forward backward.
           forward_backward m y = Inr (posterior, forward, backward) \<and>
           length (backward_aug m y) = length y + 1 \<and>
           backward_aug m y ! length y = Finite (replicate (length ws) (1 / real (length ws))) \<and>
           (\<forall>t. 1 \<le> t \<and> t \<le> length y \<longrightarrow>
              backward_aug m y ! (t - 1) =
                spec_backward_row ws tr (y ! (t - 1)) (backward_aug m y ! t)) \<and>
           length backward = length y \<and>
           (\<forall>t<length y. backward ! t = backward_aug m y ! t)"
proof -
  note fl = init_fields(1,2,3)[OF assms(1)]
  note ba = backward_aug_facts[OF fl, of y]
  have k: "K m \<noteq> 0" using fl(2) assms(2) by simp
  have "length (butlast (backward_aug m y)) = length y" using ba(1) by simp
  moreover have "\<forall>t<length y. butlast (backward_aug m y) ! t = backward_aug m y ! t"
    using ba(1) by (simp add: nth_butlast)
  ultimately show ?thesis using forward_backward_result[OF k, of y] ba by blast
qed

theorem backward_pass_recurrence_witness:
  "HMM_init toy_w toy_P None = Inr toy_hmm \<and> toy_w \<noteq> [] \<and> toy_y \<noteq> [] \<and>
   (\<exists>posterior forward backward.
      forward_backward toy_hmm toy_y = Inr (posterior, forward, backward) \<and>
      length (backward_aug toy_hmm toy_y) = length toy_y + 1 \<and>
      backward_aug toy_hmm toy_y ! length toy_y =
        Finite (replicate (length toy_w) (1 / real (length toy_w))) \<and>
      (\<forall>t. 1 \<le> t \<and> t \<le> length toy_y \<longrightarrow>
         backward_aug toy_hmm toy_y ! (t - 1) =
           spec_backward_row toy_w toy_P (toy_y ! (t - 1)) (backward_aug toy_hmm toy_y ! t)) \<and>
      length backward = length toy_y \<and>
      (\<forall>t<length toy_y. backward ! t = backward_aug toy_hmm toy_y ! t))"
proof -
  have a: "toy_w \<noteq> []" by (simp add: toy_w_def)
  have b: "toy_y \<noteq> []" by (simp add: toy_y_def)
  show ?thesis using backward_pass_recurrence[OF toy_init a b] toy_init a b by blast
qed

lemma sum_list_divide: "sum_list (map (\<lambda>x. x / c) xs) = sum_list xs / (c::real)"
  by (induction xs) (simp_all add: add_divide_distrib)

lemma normalized_sum:
  assumes "normalized u = Finite v"
  shows "v = map (\<lambda>x. x / sum_list u) u" and "sum_list v = 1"
proof -
  have nz: "sum_list u \<noteq> 0" using assms by (auto simp: normalized_def split: if_splits)
  show v: "v = map (\<lambda>x. x / sum_list u) u"
    using assms nz by (simp add: normalized_def)
  show "sum_list v = 1" unfolding v using nz by (simp add: sum_list_divide)
qed

lemma spec_forward_row_sum: "spec_forward_row ws tr yt prev = Finite v \<Longrightarrow> sum_list v = 1"
  by (auto simp: spec_forward_row_def split: row.splits dest: normalized_sum(2))

lemma spec_backward_row_sum: "spec_backward_row ws tr yt nxt = Finite v \<Longrightarrow> sum_list v = 1"
  by (auto simp: spec_backward_row_def split: row.splits dest: normalized_sum(2))

lemma posterior_row_Finite:
  assumes "posterior_row r1 r2 = Finite p" and "r1 = Finite f" and "r2 = Finite b"
  shows "p = map (\<lambda>x. x / sum_list (map2 (*) f b)) (map2 (*) f b)" and "sum_list p = 1"
proof -
  have "normalized (map2 (*) f b) = Finite p"
    using assms by (simp add: posterior_row_def np_normalize_eq np_multiply_def)
  then show "p = map (\<lambda>x. x / sum_list (map2 (*) f b)) (map2 (*) f b)" and "sum_list p = 1"
    by (rule normalized_sum)+
qed

lemma not_NonFinite: "r \<noteq> NonFinite \<Longrightarrow> \<exists>v. r = Finite v"
  by (cases r) simp_all

text \<open>
  C4: for a constructed model and an observation sequence of length \<open>T\<close>, when no row of
  the three returned arrays comes from a division by a zero sum, the arrays have \<open>T\<close> rows
  each, every row of \<open>forward\<close>, of \<open>backward\<close> and of \<open>posterior\<close> sums to 1, and row \<open>t\<close>
  of \<open>posterior\<close> is the entry-wise product of the rows \<open>t\<close> of \<open>forward\<close> and \<open>backward\<close>
  divided by the sum of that product.
\<close>

theorem rows_sum_to_one:
  assumes "HMM_init ws tr d = Inr m"
    and "forward_backward m y = Inr (posterior, forward, backward)"
    and "NonFinite \<notin> set forward" and "NonFinite \<notin> set backward"
    and "NonFinite \<notin> set posterior"
  shows "length posterior = length y \<and> length forward = length y \<and> length backward = length y \<and>
         (\<forall>t<length y. \<exists>f b p.
            forward ! t = Finite f \<and> backward ! t = Finite b \<and> posterior ! t = Finite p \<and>
            sum_list f = 1 \<and> sum_list b = 1 \<and> sum_list p = 1 \<and>
            p = map (\<lambda>x. x / sum_list (map2 (*) f b)) (map2 (*) f b))"
proof -
  note fl = init_fields(1,2,3)[OF assms(1)]
  note fa = forward_aug_facts[OF fl, of y]
  note ba = backward_aug_facts[OF fl, of y]
  have k: "K m \<noteq> 0" using assms(2) by (auto simp: forward_backward_def split: if_splits)
  from forward_backward_result[OF k, of y] assms(2)
  have fw: "forward = tl (forward_aug m y)" and bw: "backward = butlast (backward_aug m y)"
    and po: "posterior = map2 posterior_row forward backward"
    by simp_all
  have lf: "length forward = length y" using fa(1) fw by simp
  have lb: "length backward = length y" using ba(1) bw by simp
  have lp: "length posterior = length y" using po lf lb by simp
  have rows: "\<exists>f b p.
            forward ! t = Finite f \<and> backward ! t = Finite b \<and> posterior ! t = Finite p \<and>
            sum_list f = 1 \<and> sum_list b = 1 \<and> sum_list p = 1 \<and>
            p = map (\<lambda>x. x / sum_list (map2 (*) f b)) (map2 (*) f b)"
    if t: "t < length y" for t
  proof -
    have "forward ! t \<noteq> NonFinite" using assms(3) t lf by (metis nth_mem)
    then obtain f where f: "forward ! t = Finite f" using not_NonFinite by blast
    have "backward ! t \<noteq> NonFinite" using assms(4) t lb by (metis nth_mem)
    then obtain b where b: "backward ! t = Finite b" using not_NonFinite by blast
    have "posterior ! t \<noteq> NonFinite" using assms(5) t lp by (metis nth_mem)
    then obtain p where p: "posterior ! t = Finite p" using not_NonFinite by blast
    have "forward ! t = forward_aug m y ! (t + 1)" using fw fa(1) t by (simp add: nth_tl)
    then have "spec_forward_row ws tr (y ! t) (forward_aug m y ! t) = Finite f"
      using fa(3) t f by simp
    then have sf: "sum_list f = 1" by (rule spec_forward_row_sum)
    have "backward ! t = backward_aug m y ! t" using bw ba(1) t by (simp add: nth_butlast)
    moreover have "backward_aug m y ! (Suc t - 1) =
        spec_backward_row ws tr (y ! (Suc t - 1)) (backward_aug m y ! Suc t)"
      using ba(3) t by (metis Suc_leI le_add1 plus_1_eq_Suc)
    ultimately have "spec_backward_row ws tr (y ! t) (backward_aug m y ! Suc t) = Finite b"
      using b by simp
    then have sb: "sum_list b = 1" by (rule spec_backward_row_sum)
    have "posterior ! t = posterior_row (forward ! t) (backward ! t)"
      using po t lf lb by simp
    then have "posterior_row (forward ! t) (backward ! t) = Finite p" using p by simp
    from posterior_row_Finite[OF this f b] show ?thesis using f b p sf sb by blast
  qed
  show ?thesis using lf lb lp rows by blast
qed

text \<open>One observation, 0, on the model of the driver: no sum is zero.\<close>

lemma pos_sum_nonzero: "0 < a \<Longrightarrow> 0 < b \<Longrightarrow> a + b \<noteq> (0::real)"
  by simp

lemma toy_fwd: "tl (forward_aug toy_hmm [0]) =
   [Finite [1 / 4 / (1 / 4 + 3 / 4 * exp (- 2)), 3 / 4 * exp (- 2) / (1 / 4 + 3 / 4 * exp (- 2))]]"
proof -
  have "0 < exp (- 2 :: real)" by simp
  then have "1 / 4 + 3 / 4 * exp (- 2 :: real) \<noteq> 0" by (intro pos_sum_nonzero) simp_all
  then show ?thesis
  by (simp add: forward_aug_def forward_step_def toy_hmm_def toy_w_def toy_P_def np_normalize_def
    np_multiply_def np_matmul_vec_def lik_def log_lik_def at2_def numeral_2_eq_2 Let_def)
qed

lemma toy_bwd: "butlast (backward_aug toy_hmm [0]) =
   [Finite [(1 / 4 + exp (- 2) / 4) / (1 / 4 + 3 / 4 * exp (- 2)), exp (- 2) / 2 / (1 / 4 + 3 / 4 * exp (- 2))]]"
proof -
  have "0 < exp (- 2 :: real)" by simp
  then have "1 / 4 + 3 / 4 * exp (- 2 :: real) \<noteq> 0" by (intro pos_sum_nonzero) simp_all
  then show ?thesis
  by (simp add: backward_aug_def backward_step_def toy_hmm_def toy_w_def toy_P_def np_normalize_def
    matrix_mul_col_def matrix_mul_diag_def np_diag_def lik_def log_lik_def at2_def numeral_2_eq_2 Let_def)
qed

lemma toy_post: "NonFinite \<notin> set (map2 posterior_row (tl (forward_aug toy_hmm [0])) (butlast (backward_aug toy_hmm [0])))"
proof -
  have e: "0 < exp (- 2 :: real)" by simp
  then have s: "0 < 1 / 4 + 3 / 4 * exp (- 2 :: real)" by (intro add_pos_pos) simp_all
  have "1 / 4 / (1 / 4 + 3 / 4 * exp (- 2)) * ((1 / 4 + exp (- 2) / 4) / (1 / 4 + 3 / 4 * exp (- 2 :: real)))
      + 3 / 4 * exp (- 2) / (1 / 4 + 3 / 4 * exp (- 2)) * (exp (- 2) / 2 / (1 / 4 + 3 / 4 * exp (- 2))) \<noteq> 0"
    using e s by (intro pos_sum_nonzero mult_pos_pos divide_pos_pos add_pos_pos) simp_all
  then show ?thesis
    unfolding toy_fwd toy_bwd
    by (simp add: posterior_row_def np_normalize_def np_multiply_def)
qed

theorem rows_sum_to_one_witness:
  "HMM_init toy_w toy_P None = Inr toy_hmm \<and>
   forward_backward toy_hmm [0] =
     Inr (map2 posterior_row (tl (forward_aug toy_hmm [0])) (butlast (backward_aug toy_hmm [0])),
          tl (forward_aug toy_hmm [0]), butlast (backward_aug toy_hmm [0])) \<and>
   NonFinite \<notin> set (tl (forward_aug toy_hmm [0])) \<and>
   NonFinite \<notin> set (butlast (backward_aug toy_hmm [0])) \<and>
   NonFinite \<notin> set (map2 posterior_row (tl (forward_aug toy_hmm [0]))
                        (butlast (backward_aug toy_hmm [0]))) \<and>
   (\<exists>f b p.
      tl (forward_aug toy_hmm [0]) ! 0 = Finite f \<and>
      butlast (backward_aug toy_hmm [0]) ! 0 = Finite b \<and>
      map2 posterior_row (tl (forward_aug toy_hmm [0])) (butlast (backward_aug toy_hmm [0])) ! 0
        = Finite p \<and>
      sum_list f = 1 \<and> sum_list b = 1 \<and> sum_list p = 1 \<and>
      p = map (\<lambda>x. x / sum_list (map2 (*) f b)) (map2 (*) f b))"
proof -
  have k: "K toy_hmm \<noteq> 0" by (simp add: toy_hmm_def)
  note r = forward_backward_result[OF k, of "[0]"]
  have f: "NonFinite \<notin> set (tl (forward_aug toy_hmm [0]))" by (simp add: toy_fwd)
  have b: "NonFinite \<notin> set (butlast (backward_aug toy_hmm [0]))" by (simp add: toy_bwd)
  note c = rows_sum_to_one[OF toy_init r f b toy_post]
  have "(0::nat) < length [0::real]" by simp
  with c have "\<exists>f b p.
      tl (forward_aug toy_hmm [0]) ! 0 = Finite f \<and>
      butlast (backward_aug toy_hmm [0]) ! 0 = Finite b \<and>
      map2 posterior_row (tl (forward_aug toy_hmm [0])) (butlast (backward_aug toy_hmm [0])) ! 0
        = Finite p \<and>
      sum_list f = 1 \<and> sum_list b = 1 \<and> sum_list p = 1 \<and>
      p = map (\<lambda>x. x / sum_list (map2 (*) f b)) (map2 (*) f b)"
    by blast
  then show ?thesis using toy_init r f b toy_post by blast
qed

subsection \<open>The Viterbi decoder\<close>

lemma fold_ascending_pair:
  assumes step: "\<And>t st sc. f t (st, sc) = (st[Suc t := A (sc ! t)], sc[Suc t := B t (sc ! t)])"
    and "n < length st0" and "n < length sc0"
  shows "\<exists>st sc. fold f [0..<n] (st0, sc0) = (st, sc) \<and>
           length st = length st0 \<and> length sc = length sc0 \<and>
           st ! 0 = st0 ! 0 \<and> sc ! 0 = sc0 ! 0 \<and>
           (\<forall>t<n. st ! Suc t = A (sc ! t) \<and> sc ! Suc t = B t (sc ! t)) \<and>
           (\<forall>j>n. st ! j = st0 ! j \<and> sc ! j = sc0 ! j)"
  using assms(2,3)
proof (induction n)
  case 0
  then show ?case by simp
next
  case (Suc n)
  then obtain st sc where ih: "fold f [0..<n] (st0, sc0) = (st, sc)"
    "length st = length st0" "length sc = length sc0"
    "st ! 0 = st0 ! 0" "sc ! 0 = sc0 ! 0"
    "\<forall>t<n. st ! Suc t = A (sc ! t) \<and> sc ! Suc t = B t (sc ! t)"
    "\<forall>j>n. st ! j = st0 ! j \<and> sc ! j = sc0 ! j"
    by (metis Suc_lessD)
  let ?st = "st[Suc n := A (sc ! n)]" and ?sc = "sc[Suc n := B n (sc ! n)]"
  have eq: "fold f [0..<Suc n] (st0, sc0) = (?st, ?sc)" using ih(1) by (simp add: step)
  have "\<forall>t<Suc n. ?st ! Suc t = A (?sc ! t) \<and> ?sc ! Suc t = B t (?sc ! t)"
    using ih Suc.prems by (auto simp: nth_list_update less_Suc_eq)
  moreover have "\<forall>j>Suc n. ?st ! j = st0 ! j \<and> ?sc ! j = sc0 ! j"
    using ih(7) by simp
  ultimately show ?case using eq ih(2,3,4,5) by simp
qed

lemma viterbi_partial_forward_rows:
  "length (viterbi_partial_forward m scores) = K m"
  "i < K m \<Longrightarrow> j < K m \<Longrightarrow>
     viterbi_partial_forward m scores ! i ! j = np_add (scores ! i) (at2 (logP m) i j)"
  by (simp_all add: viterbi_partial_forward_def)

lemma viterbi_column:
  "j < K m \<Longrightarrow> column (viterbi_partial_forward m scores) j =
     map (\<lambda>i. np_add (scores ! i) (at2 (logP m) i j)) [0..<K m]"
  by (simp add: column_def viterbi_partial_forward_def)

lemma viterbi_step_pure:
  assumes "K m \<noteq> 0"
  shows "viterbi_step m y t (st, sc) =
     Inr (st[Suc t := np_argmax_axis0 (K m) (viterbi_partial_forward m (sc ! t))],
          sc[Suc t := np_add_rows (np_max_axis0 (K m) (viterbi_partial_forward m (sc ! t)))
                        (log_lik m (y ! Suc t))])"
proof -
  have "viterbi_partial_forward m (sc ! t) \<noteq> []"
    using assms viterbi_partial_forward_rows(1)[of m "sc ! t"] by auto
  then show ?thesis by (simp add: viterbi_step_def Let_def)
qed

lemma viterbi_tables_facts:
  assumes k: "K m \<noteq> 0" and y: "y \<noteq> []"
  shows "\<exists>pathStates pathScores.
           viterbi_tables m y = Inr (pathStates, pathScores) \<and>
           length pathStates = length y \<and> length pathScores = length y \<and>
           pathStates ! 0 = replicate (K m) 0 \<and>
           pathScores ! 0 = np_add_rows (logp0 m) (log_lik m (y ! 0)) \<and>
           (\<forall>t. Suc t < length y \<longrightarrow>
              pathStates ! Suc t =
                np_argmax_axis0 (K m) (viterbi_partial_forward m (pathScores ! t)) \<and>
              pathScores ! Suc t =
                np_add_rows (np_max_axis0 (K m) (viterbi_partial_forward m (pathScores ! t)))
                  (log_lik m (y ! Suc t)))"
proof -
  define st0 where "st0 = replicate (length y) (replicate (K m) (0::nat))"
  define sc0 where "sc0 = (replicate (length y) (replicate (K m) (Fin 0)))
                            [0 := np_add_rows (logp0 m) (log_lik m (y ! 0))]"
  let ?A = "\<lambda>row. np_argmax_axis0 (K m) (viterbi_partial_forward m row)"
  let ?B = "\<lambda>t row. np_add_rows (np_max_axis0 (K m) (viterbi_partial_forward m row))
                        (log_lik m (y ! Suc t))"
  let ?g = "\<lambda>t p. case p of (st, sc) \<Rightarrow> (st[Suc t := ?A (sc ! t)], sc[Suc t := ?B t (sc ! t)])"
  have ly: "0 < length y" using y by simp
  have l0: "length st0 = length y" "length sc0 = length y"
    by (simp_all add: st0_def sc0_def)
  have st00: "st0 ! 0 = replicate (K m) 0" using ly by (simp add: st0_def)
  have sc00: "sc0 ! 0 = np_add_rows (logp0 m) (log_lik m (y ! 0))" using ly by (simp add: sc0_def)
  have tab: "viterbi_tables m y = foldE (viterbi_step m y) [0..<length y - 1] (st0, sc0)"
    using ly unfolding viterbi_tables_def st0_def sc0_def Let_def by simp
  have "foldE (viterbi_step m y) [0..<length y - 1] (st0, sc0) =
          Inr (fold ?g [0..<length y - 1] (st0, sc0)) \<and> True"
    by (rule foldE_fold[where I = "\<lambda>_. True"]) (auto simp: viterbi_step_pure[OF k])
  then have run: "viterbi_tables m y = Inr (fold ?g [0..<length y - 1] (st0, sc0))"
    using tab by simp
  have n: "length y - 1 < length st0" "length y - 1 < length sc0" using ly l0 by simp_all
  have gstep: "\<And>t st sc. ?g t (st, sc) = (st[Suc t := ?A (sc ! t)], sc[Suc t := ?B t (sc ! t)])"
    by simp
  from fold_ascending_pair[of ?g ?A ?B, OF gstep n]
  obtain st sc where r: "fold ?g [0..<length y - 1] (st0, sc0) = (st, sc)"
    "length st = length st0" "length sc = length sc0"
    "st ! 0 = st0 ! 0" "sc ! 0 = sc0 ! 0"
    "\<forall>t<length y - 1. st ! Suc t = ?A (sc ! t) \<and> sc ! Suc t = ?B t (sc ! t)"
    by blast
  have "\<forall>t. Suc t < length y \<longrightarrow> st ! Suc t = ?A (sc ! t) \<and> sc ! Suc t = ?B t (sc ! t)"
    using r(6) by (simp add: less_diff_conv)
  then show ?thesis using run r(1,2,3,4,5) l0 st00 sc00 by simp
qed

lemma np_argmax_axis0_nth:
  "j < k \<Longrightarrow> np_argmax_axis0 k M ! j = np_argmax (column M j)"
  "length (np_argmax_axis0 k M) = k"
  by (simp_all add: np_argmax_axis0_def)

lemma np_max_axis0_nth:
  "j < k \<Longrightarrow> np_max_axis0 k M ! j = np_max (column M j)"
  "length (np_max_axis0 k M) = k"
  by (simp_all add: np_max_axis0_def)

lemma np_add_rows_nth:
  "length (np_add_rows a b) = min (length a) (length b)"
  "j < length a \<Longrightarrow> j < length b \<Longrightarrow> np_add_rows a b ! j = np_add (a ! j) (Fin (b ! j))"
  by (simp_all add: np_add_rows_def)

lemma log_lik_length: "length (log_lik m yy) = length (w m)"
  by (simp add: log_lik_def)

text \<open>The entries of the two tables, for a model whose vectors have \<open>K\<close> entries.\<close>

lemma viterbi_tables_entries:
  assumes k: "K m \<noteq> 0" and y: "y \<noteq> []"
    and lw: "length (w m) = K m" and lp: "length (logp0 m) = K m"
  shows "\<exists>pathStates pathScores.
           viterbi_tables m y = Inr (pathStates, pathScores) \<and>
           length pathStates = length y \<and> length pathScores = length y \<and>
           (\<forall>t<length y. length (pathStates ! t) = K m \<and> length (pathScores ! t) = K m) \<and>
           (\<forall>t<length y. \<forall>j<K m. pathStates ! t ! j < K m) \<and>
           (\<forall>j<K m. pathScores ! 0 ! j = np_add (logp0 m ! j) (Fin (log_lik m (y ! 0) ! j))) \<and>
           (\<forall>t j. Suc t < length y \<and> j < K m \<longrightarrow>
              is_first_max (map (\<lambda>i. np_add (pathScores ! t ! i) (at2 (logP m) i j)) [0..<K m])
                (pathStates ! Suc t ! j) \<and>
              pathScores ! Suc t ! j =
                np_add (map (\<lambda>i. np_add (pathScores ! t ! i) (at2 (logP m) i j)) [0..<K m]
                          ! (pathStates ! Suc t ! j))
                       (Fin (log_lik m (y ! Suc t) ! j)))"
proof -
  from viterbi_tables_facts[OF k y]
  obtain st sc where r: "viterbi_tables m y = Inr (st, sc)"
    "length st = length y" "length sc = length y"
    "st ! 0 = replicate (K m) 0"
    "sc ! 0 = np_add_rows (logp0 m) (log_lik m (y ! 0))"
    "\<forall>t. Suc t < length y \<longrightarrow>
        st ! Suc t = np_argmax_axis0 (K m) (viterbi_partial_forward m (sc ! t)) \<and>
        sc ! Suc t = np_add_rows (np_max_axis0 (K m) (viterbi_partial_forward m (sc ! t)))
                       (log_lik m (y ! Suc t))"
    by blast
  let ?col = "\<lambda>t j. map (\<lambda>i. np_add (sc ! t ! i) (at2 (logP m) i j)) [0..<K m]"
  have colne: "?col t j \<noteq> []" for t j using k by simp
  have step: "is_first_max (?col t j) (st ! Suc t ! j) \<and>
              sc ! Suc t ! j = np_add (?col t j ! (st ! Suc t ! j)) (Fin (log_lik m (y ! Suc t) ! j))"
    if "Suc t < length y" "j < K m" for t j
  proof -
    have a: "st ! Suc t ! j = np_argmax (?col t j)"
      using r(6) that by (simp add: np_argmax_axis0_nth viterbi_column)
    have "sc ! Suc t ! j = np_add (np_max (?col t j)) (Fin (log_lik m (y ! Suc t) ! j))"
      using r(6) that lw
      by (simp add: np_add_rows_nth np_max_axis0_nth log_lik_length viterbi_column)
    then show ?thesis
      using a np_argmax_first_max[OF colne, of t j] np_max_at_argmax[OF colne, of t j] by simp
  qed
  have lens: "length (st ! t) = K m \<and> length (sc ! t) = K m" if "t < length y" for t
  proof (cases t)
    case 0
    then show ?thesis using r(4,5) lw lp by (simp add: np_add_rows_nth log_lik_length)
  next
    case (Suc u)
    then show ?thesis using r(6) that lw
      by (simp add: np_add_rows_nth np_argmax_axis0_nth np_max_axis0_nth log_lik_length)
  qed
  have bound: "st ! t ! j < K m" if "t < length y" "j < K m" for t j
  proof (cases t)
    case 0
    then show ?thesis using r(4) that k by simp
  next
    case (Suc u)
    then have "is_first_max (?col u j) (st ! t ! j)" using step that by blast
    then show ?thesis by (simp add: is_first_max_def)
  qed
  have first: "\<forall>j<K m. sc ! 0 ! j = np_add (logp0 m ! j) (Fin (log_lik m (y ! 0) ! j))"
    using r(5) lw lp by (simp add: np_add_rows_nth log_lik_length)
  show ?thesis using r(1,2,3) lens bound first step by blast
qed

lemma viterbi_backtrack_facts:
  assumes tab: "viterbi_tables m y = Inr (st, sc)" and y: "y \<noteq> []" and k: "K m \<noteq> 0"
    and ls: "length st = length y" "length sc = length y"
    and rows: "\<forall>t<length y. length (st ! t) = K m \<and> length (sc ! t) = K m"
    and bound: "\<forall>t<length y. \<forall>j<K m. st ! t ! j < K m"
  shows "\<exists>s. viterbi_decode m y = Inr (s, sc) \<and> length s = length y \<and>
           (\<forall>x\<in>set s. x < K m) \<and>
           is_first_max (sc ! (length y - 1)) (s ! (length y - 1)) \<and>
           (\<forall>t. 1 \<le> t \<and> t < length y \<longrightarrow> s ! (t - 1) = st ! t ! (s ! t))"
proof -
  define n where "n = length y - 1"
  have ny: "length y = Suc n" using y by (simp add: n_def)
  have sc_ne: "sc \<noteq> []" using ls(2) y by auto
  have last_sc: "last sc = sc ! n" using sc_ne ls(2) ny by (simp add: last_conv_nth)
  have ln: "length (sc ! n) = K m" using rows ny by simp
  then have ne: "sc ! n \<noteq> []" using k by auto
  define am where "am = np_argmax (sc ! n)"
  have fm: "is_first_max (sc ! n) am" unfolding am_def by (rule np_argmax_first_max[OF ne])
  then have amk: "am < K m" using ln by (simp add: is_first_max_def)
  define s0 where "s0 = (replicate (length y) (0::nat))[n := am]"
  have ls0: "length s0 = length y" by (simp add: s0_def)
  let ?I = "\<lambda>s. length s = length y \<and> (\<forall>x\<in>set s. x < K m)"
  let ?g = "\<lambda>t s. s[t - 1 := st ! t ! (s ! t)]"
  have I0: "?I s0"
    using k amk ls0 unfolding s0_def by (auto dest!: set_update_subset_insert[THEN subsetD])
  have stepI: "backtrack_step st t s = Inr (?g t s) \<and> ?I (?g t s)"
    if "t \<in> set (rev [1..<length y])" "?I s" for t s
  proof -
    have t: "t < length y" using that(1) by simp
    then have "s ! t < K m" using that(2) by simp
    moreover have "length (st ! t) = K m" using rows t by simp
    moreover have "st ! t ! (s ! t) < K m" using bound t \<open>s ! t < K m\<close> by simp
    ultimately show ?thesis
      using that(2) by (auto simp: backtrack_step_def dest!: set_update_subset_insert[THEN subsetD])
  qed
  have run: "foldE (backtrack_step st) (rev [1..<length y]) s0 =
               Inr (fold ?g (rev [1..<length y]) s0) \<and> ?I (fold ?g (rev [1..<length y]) s0)"
    by (rule foldE_fold[where I = ?I]) (use stepI I0 in blast)+
  have "n < length s0" using ls0 ny by simp
  from fold_descending[of ?g "\<lambda>t x. st ! t ! x", OF _ this]
  have d: "\<forall>t. 1 \<le> t \<and> t \<le> n \<longrightarrow>
             fold ?g (rev [1..<Suc n]) s0 ! (t - 1) = st ! t ! (fold ?g (rev [1..<Suc n]) s0 ! t)"
    "\<forall>j\<ge>n. fold ?g (rev [1..<Suc n]) s0 ! j = s0 ! j"
    by simp_all
  let ?s = "fold ?g (rev [1..<length y]) s0"
  have s0n: "s0 ! n = am" unfolding s0_def by (rule nth_list_update_eq) (simp add: ny)
  have sn: "?s ! n = am" using d(2) ny s0n by simp
  have rel: "\<forall>t. 1 \<le> t \<and> t < length y \<longrightarrow> ?s ! (t - 1) = st ! t ! (?s ! t)"
    using d(1) ny by simp
  have dec: "viterbi_decode m y = Inr (?s, sc)"
    using tab run ne last_sc unfolding viterbi_decode_def
    by (simp add: Let_def s0_def am_def n_def)
  show ?thesis using dec run sn rel fm by (auto simp: n_def)
qed

lemma viterbi_run:
  assumes init: "HMM_init ws tr d = Inr m" and ws: "ws \<noteq> []" and y: "y \<noteq> []"
  shows "\<exists>pathStates pathScores s.
           viterbi_tables m y = Inr (pathStates, pathScores) \<and>
           viterbi_decode m y = Inr (s, pathScores) \<and>
           length pathStates = length y \<and> length pathScores = length y \<and> length s = length y \<and>
           (\<forall>x\<in>set s. x < K m) \<and>
           (\<forall>t<length y. length (pathScores ! t) = K m) \<and>
           (\<forall>j<K m. pathScores ! 0 ! j = np_add (logp0 m ! j) (Fin (log_lik m (y ! 0) ! j))) \<and>
           (\<forall>t j. 1 \<le> t \<and> t < length y \<and> j < K m \<longrightarrow>
              is_first_max (spec_candidates m (pathScores ! (t - 1)) j) (pathStates ! t ! j) \<and>
              pathScores ! t ! j =
                np_add (spec_candidates m (pathScores ! (t - 1)) j ! (pathStates ! t ! j))
                       (Fin (log_lik m (y ! t) ! j))) \<and>
           is_first_max (pathScores ! (length y - 1)) (s ! (length y - 1)) \<and>
           (\<forall>t. 1 \<le> t \<and> t < length y \<longrightarrow> s ! (t - 1) = pathStates ! t ! (s ! t))"
proof -
  note fl = init_fields[OF init]
  have k: "K m \<noteq> 0" using fl(2) ws by simp
  have lw: "length (w m) = K m" using fl(1,2) by simp
  have lp: "length (logp0 m) = K m" using fl(2,6,7) by simp
  from viterbi_tables_entries[OF k y lw lp]
  obtain st sc where r: "viterbi_tables m y = Inr (st, sc)"
    "length st = length y" "length sc = length y"
    "\<forall>t<length y. length (st ! t) = K m \<and> length (sc ! t) = K m"
    "\<forall>t<length y. \<forall>j<K m. st ! t ! j < K m"
    "\<forall>j<K m. sc ! 0 ! j = np_add (logp0 m ! j) (Fin (log_lik m (y ! 0) ! j))"
    "\<forall>t j. Suc t < length y \<and> j < K m \<longrightarrow>
        is_first_max (map (\<lambda>i. np_add (sc ! t ! i) (at2 (logP m) i j)) [0..<K m]) (st ! Suc t ! j) \<and>
        sc ! Suc t ! j =
          np_add (map (\<lambda>i. np_add (sc ! t ! i) (at2 (logP m) i j)) [0..<K m] ! (st ! Suc t ! j))
                 (Fin (log_lik m (y ! Suc t) ! j))"
    by blast
  from viterbi_backtrack_facts[OF r(1) y k r(2,3,4,5)]
  obtain s where s: "viterbi_decode m y = Inr (s, sc)" "length s = length y"
    "\<forall>x\<in>set s. x < K m"
    "is_first_max (sc ! (length y - 1)) (s ! (length y - 1))"
    "\<forall>t. 1 \<le> t \<and> t < length y \<longrightarrow> s ! (t - 1) = st ! t ! (s ! t)"
    by blast
  have rec: "is_first_max (spec_candidates m (sc ! (t - 1)) j) (st ! t ! j) \<and>
             sc ! t ! j = np_add (spec_candidates m (sc ! (t - 1)) j ! (st ! t ! j))
                            (Fin (log_lik m (y ! t) ! j))"
    if "1 \<le> t \<and> t < length y \<and> j < K m" for t j
  proof -
    have "t \<noteq> 0" using that by simp
    then obtain u where u: "t = Suc u" by (cases t) auto
    show ?thesis using r(7) that unfolding u spec_candidates_def by simp
  qed
  show ?thesis using r(1,2,3,4,6) s rec by blast
qed

text \<open>
  C1: for a constructed model with at least one state and a non-empty observation sequence
  of length \<open>T\<close>, \<open>viterbi_decode\<close> returns, and its tables satisfy: row 0 of \<open>pathScores\<close>
  is \<open>logp0 + log_lik(y[0])\<close>; for \<open>t\<close> from 1 to \<open>T - 1\<close> and each state \<open>j\<close>,
  \<open>pathStates[t][j]\<close> is the least index at which the column
  \<open>pathScores[t - 1][i] + logP[i][j]\<close> (over \<open>i\<close>) has its greatest entry, and
  \<open>pathScores[t][j]\<close> is that greatest entry plus \<open>log_lik(y[t])[j]\<close>; the returned path
  has at \<open>T - 1\<close> the least index of the greatest entry of the last row of \<open>pathScores\<close>,
  and \<open>s[t - 1] = pathStates[t][s[t]]\<close> for \<open>t\<close> from \<open>T - 1\<close> down to 1.
\<close>

theorem viterbi_recurrence:
  assumes "HMM_init ws tr d = Inr m" and "ws \<noteq> []" and "y \<noteq> []"
  shows "\<exists>pathStates pathScores s.
           viterbi_tables m y = Inr (pathStates, pathScores) \<and>
           viterbi_decode m y = Inr (s, pathScores) \<and>
           K m = length ws \<and>
           length pathScores = length y \<and> length (pathScores ! 0) = K m \<and>
           (\<forall>j<K m. pathScores ! 0 ! j = np_add (logp0 m ! j) (Fin (log_lik m (y ! 0) ! j))) \<and>
           (\<forall>t j. 1 \<le> t \<and> t < length y \<and> j < K m \<longrightarrow>
              is_first_max (spec_candidates m (pathScores ! (t - 1)) j) (pathStates ! t ! j) \<and>
              pathScores ! t ! j =
                np_add (spec_candidates m (pathScores ! (t - 1)) j ! (pathStates ! t ! j))
                       (Fin (log_lik m (y ! t) ! j))) \<and>
           is_first_max (pathScores ! (length y - 1)) (s ! (length y - 1)) \<and>
           (\<forall>t. 1 \<le> t \<and> t < length y \<longrightarrow> s ! (t - 1) = pathStates ! t ! (s ! t))"
proof -
  have "0 < length y" using assms(3) by simp
  then show ?thesis
    using viterbi_run[OF assms] init_fields(2)[OF assms(1)] by (metis (no_types, lifting))
qed

theorem viterbi_recurrence_witness:
  "HMM_init toy_w toy_P None = Inr toy_hmm \<and> toy_w \<noteq> [] \<and> toy_y \<noteq> [] \<and>
   (\<exists>pathStates pathScores s.
      viterbi_tables toy_hmm toy_y = Inr (pathStates, pathScores) \<and>
      viterbi_decode toy_hmm toy_y = Inr (s, pathScores) \<and>
      K toy_hmm = length toy_w \<and>
      length pathScores = length toy_y \<and> length (pathScores ! 0) = K toy_hmm \<and>
      (\<forall>j<K toy_hmm.
         pathScores ! 0 ! j = np_add (logp0 toy_hmm ! j) (Fin (log_lik toy_hmm (toy_y ! 0) ! j))) \<and>
      (\<forall>t j. 1 \<le> t \<and> t < length toy_y \<and> j < K toy_hmm \<longrightarrow>
         is_first_max (spec_candidates toy_hmm (pathScores ! (t - 1)) j) (pathStates ! t ! j) \<and>
         pathScores ! t ! j =
           np_add (spec_candidates toy_hmm (pathScores ! (t - 1)) j ! (pathStates ! t ! j))
                  (Fin (log_lik toy_hmm (toy_y ! t) ! j))) \<and>
      is_first_max (pathScores ! (length toy_y - 1)) (s ! (length toy_y - 1)) \<and>
      (\<forall>t. 1 \<le> t \<and> t < length toy_y \<longrightarrow> s ! (t - 1) = pathStates ! t ! (s ! t)))"
proof -
  have a: "toy_w \<noteq> []" by (simp add: toy_w_def)
  have b: "toy_y \<noteq> []" by (simp add: toy_y_def)
  show ?thesis using viterbi_recurrence[OF toy_init a b] toy_init a b by blast
qed

text \<open>
  C6: for a constructed model with \<open>K \<ge> 1\<close> states and a non-empty observation sequence
  of length \<open>T\<close>, \<open>viterbi_decode\<close> returns a path (so no index of the backtracking loop
  was out of range) of exactly \<open>T\<close> entries, each of them a state index below \<open>K\<close>.
\<close>

theorem viterbi_path_in_range:
  assumes "HMM_init ws tr d = Inr m" and "ws \<noteq> []" and "y \<noteq> []"
  shows "\<exists>s pathScores. viterbi_decode m y = Inr (s, pathScores) \<and>
           length s = length y \<and> (\<forall>x\<in>set s. x < length ws)"
  using viterbi_run[OF assms] init_fields(2)[OF assms(1)] by metis

theorem viterbi_path_in_range_witness:
  "HMM_init toy_w toy_P None = Inr toy_hmm \<and> toy_w \<noteq> [] \<and> toy_y \<noteq> [] \<and>
   (\<exists>s pathScores. viterbi_decode toy_hmm toy_y = Inr (s, pathScores) \<and>
      length s = length toy_y \<and> (\<forall>x\<in>set s. x < length toy_w))"
proof -
  have a: "toy_w \<noteq> []" by (simp add: toy_w_def)
  have b: "toy_y \<noteq> []" by (simp add: toy_y_def)
  show ?thesis using viterbi_path_in_range[OF toy_init a b] toy_init a b by blast
qed

subsection \<open>The model of the driver never leaves state 1\<close>

lemma np_add_NaN: "np_add a b = NaN \<longleftrightarrow> a = NaN \<or> b = NaN"
  by (cases a; cases b) simp_all

lemma np_add_NInf: "a \<noteq> NaN \<Longrightarrow> np_add a NInf = NInf"
  by (cases a) simp_all

lemma has_step_1_0_nth:
  "has_step_1_0 s \<Longrightarrow> \<exists>t. Suc t < length s \<and> s ! t = 1 \<and> s ! Suc t = 0"
proof (induction s rule: has_step_1_0.induct)
  case (1 a b xs)
  show ?case
  proof (cases "a = 1 \<and> b = 0")
    case True
    then have "Suc 0 < length (a # b # xs) \<and> (a # b # xs) ! 0 = 1 \<and> (a # b # xs) ! Suc 0 = 0"
      by simp
    then show ?thesis by blast
  next
    case False
    then have "has_step_1_0 (b # xs)" using "1.prems" by auto
    then obtain t where "Suc t < length (b # xs) \<and> (b # xs) ! t = 1 \<and> (b # xs) ! Suc t = 0"
      using "1.IH" by blast
    then have "Suc (Suc t) < length (a # b # xs) \<and> (a # b # xs) ! Suc t = 1 \<and>
               (a # b # xs) ! Suc (Suc t) = 0"
      by simp
    then show ?thesis by blast
  qed
qed simp_all

lemma toy_fields:
  "K toy_hmm = 2"
  "at2 (logP toy_hmm) 0 0 = Fin (ln (1 / 2))" "at2 (logP toy_hmm) 0 (Suc 0) = Fin (ln (1 / 2))"
  "at2 (logP toy_hmm) (Suc 0) 0 = NInf" "at2 (logP toy_hmm) (Suc 0) (Suc 0) = Fin 0"
  "logp0 toy_hmm = [Fin (ln (1 / 2)), Fin (ln (1 / 2))]"
  by (simp_all add: toy_hmm_def toy_P_def np_log_array_def at2_def np_log_def)

lemma toy_candidates:
  "spec_candidates toy_hmm prev 0 =
     [np_add (prev ! 0) (Fin (ln (1 / 2))), np_add (prev ! Suc 0) NInf]"
  "spec_candidates toy_hmm prev (Suc 0) =
     [np_add (prev ! 0) (Fin (ln (1 / 2))), np_add (prev ! Suc 0) (Fin 0)]"
  by (simp_all add: spec_candidates_def toy_fields numeral_2_eq_2)

lemma toy_first_max_0:
  assumes "is_first_max [a, NInf] i" and "a \<noteq> NaN"
  shows "i = 0"
proof (rule ccontr)
  assume "i \<noteq> 0"
  then have i: "i = 1" using assms(1) by (auto simp: is_first_max_def)
  have "np_total_le a NInf" using assms(1) unfolding i is_first_max_def by fastforce
  then have "a = NInf" using assms(2) by (cases a) simp_all
  moreover have "a \<noteq> NInf" using assms(1) unfolding i is_first_max_def by fastforce
  ultimately show False by simp
qed

lemma toy_no_return:
  assumes y: "y \<noteq> []"
  shows "\<exists>s pathScores. viterbi_decode toy_hmm y = Inr (s, pathScores) \<and> \<not> has_step_1_0 s"
proof -
  have w2: "toy_w \<noteq> []" by (simp add: toy_w_def)
  from viterbi_run[OF toy_init w2 y]
  obtain st sc s where r: "viterbi_decode toy_hmm y = Inr (s, sc)" "length s = length y"
    "\<forall>j<K toy_hmm. sc ! 0 ! j = np_add (logp0 toy_hmm ! j) (Fin (log_lik toy_hmm (y ! 0) ! j))"
    "\<forall>t j. 1 \<le> t \<and> t < length y \<and> j < K toy_hmm \<longrightarrow>
       is_first_max (spec_candidates toy_hmm (sc ! (t - 1)) j) (st ! t ! j) \<and>
       sc ! t ! j = np_add (spec_candidates toy_hmm (sc ! (t - 1)) j ! (st ! t ! j))
                      (Fin (log_lik toy_hmm (y ! t) ! j))"
    "\<forall>t. 1 \<le> t \<and> t < length y \<longrightarrow> s ! (t - 1) = st ! t ! (s ! t)"
    by blast
  have r4: "is_first_max (spec_candidates toy_hmm (sc ! t) j) (st ! Suc t ! j) \<and>
            sc ! Suc t ! j = np_add (spec_candidates toy_hmm (sc ! t) j ! (st ! Suc t ! j))
                      (Fin (log_lik toy_hmm (y ! Suc t) ! j))"
    if "Suc t < length y" "j < 2" for t j
    using r(4)[rule_format, of "Suc t" j] that by (simp add: toy_fields)
  have nonan: "t < length y \<Longrightarrow> sc ! t ! 0 \<noteq> NaN \<and> sc ! t ! 1 \<noteq> NaN" for t
  proof (induction t)
    case 0
    then show ?case using r(3) by (simp add: toy_fields np_add_NaN)
  next
    case (Suc t)
    then have ih: "sc ! t ! 0 \<noteq> NaN" "sc ! t ! 1 \<noteq> NaN" by simp_all
    have cand: "spec_candidates toy_hmm (sc ! t) j ! i \<noteq> NaN" if "i < 2" "j < 2" for i j
    proof -
      have "i = 0 \<or> i = 1" "j = 0 \<or> j = 1" using that by auto
      then show ?thesis using ih by (auto simp: toy_candidates np_add_NaN)
    qed
    have sel: "st ! Suc t ! j < 2" if "j < 2" for j
    proof -
      have "is_first_max (spec_candidates toy_hmm (sc ! t) j) (st ! Suc t ! j)"
        using r4 Suc.prems that by simp
      then have "st ! Suc t ! j < length (spec_candidates toy_hmm (sc ! t) j)"
        by (simp add: is_first_max_def)
      then show ?thesis by (simp add: spec_candidates_def toy_fields)
    qed
    have "sc ! Suc t ! j \<noteq> NaN" if "j < 2" for j
    proof -
      have "sc ! Suc t ! j = np_add (spec_candidates toy_hmm (sc ! t) j ! (st ! Suc t ! j))
                      (Fin (log_lik toy_hmm (y ! Suc t) ! j))"
        using r4 Suc.prems that by simp
      then show ?thesis using cand[OF sel[OF that] that] by (simp add: np_add_NaN)
    qed
    then show ?case by simp
  qed
  have col0: "st ! t ! 0 = 0" if "1 \<le> t" "t < length y" for t
  proof -
    have nn: "sc ! (t - 1) ! 0 \<noteq> NaN" "sc ! (t - 1) ! 1 \<noteq> NaN"
      using nonan[of "t - 1"] that by simp_all
    have "is_first_max (spec_candidates toy_hmm (sc ! (t - 1)) 0) (st ! t ! 0)"
      using r(4)[rule_format, of t 0] that by (simp add: toy_fields)
    then have "is_first_max [np_add (sc ! (t - 1) ! 0) (Fin (ln (1 / 2))), NInf] (st ! t ! 0)"
      using nn(2) by (simp add: toy_candidates np_add_NInf)
    moreover have "np_add (sc ! (t - 1) ! 0) (Fin (ln (1 / 2))) \<noteq> NaN"
      using nn(1) by (simp add: np_add_NaN)
    ultimately show ?thesis by (rule toy_first_max_0)
  qed
  have "\<not> has_step_1_0 s"
  proof
    assume "has_step_1_0 s"
    then obtain t where t: "Suc t < length s" "s ! t = 1" "s ! Suc t = 0"
      using has_step_1_0_nth by blast
    have "s ! (Suc t - 1) = st ! Suc t ! (s ! Suc t)"
      using r(5)[rule_format, of "Suc t"] t(1) r(2) by simp
    then have "s ! t = st ! Suc t ! 0" using t(3) by simp
    then have "s ! t = 0" using col0[of "Suc t"] t(1) r(2) by simp
    then show False using t(2) by simp
  qed
  then show ?thesis using r(1) by blast
qed

text \<open>
  C7: for the model with transition \<open>[[0.5, 0.5], [0, 1]]\<close>, means \<open>[0, 1]\<close> and the uniform
  initial distribution, and the observations \<open>[0, 1, 0, 0, 1, 1, 1, 1, 1]\<close>, the path that
  \<open>viterbi_decode\<close> returns has no step from state 1 to state 0.
\<close>

theorem toy_path_never_returns:
  "HMM_init toy_w toy_P None = Inr toy_hmm \<and>
   (\<exists>s pathScores. viterbi_decode toy_hmm toy_y = Inr (s, pathScores) \<and> \<not> has_step_1_0 s)"
proof -
  have "toy_y \<noteq> []" by (simp add: toy_y_def)
  then show ?thesis using toy_no_return toy_init by blast
qed

subsection \<open>The order of the scores\<close>

text \<open>
  \<open>np_total_le\<close> differs from the usual order of the extended reals only on \<open>nan\<close>. When
  the transition array is a valid array and has no negative entry, and the initial
  distribution has none, no entry of \<open>pathScores\<close> is \<open>nan\<close>: the greatest entry of the
  recurrence is then the maximum in the usual sense.
\<close>

lemma np_log_not_NaN: "0 \<le> x \<Longrightarrow> np_log x \<noteq> NaN"
  by (simp add: np_log_def)

lemma at2_np_log_array:
  assumes "shape a = [k, k]" and "length (elems a) = k * k" and "i < k" and "j < k"
  shows "at2 (np_log_array a) i j = np_log (at2 a i j)" and "at2 a i j \<in> set (elems a)"
proof -
  have "i * k + j < Suc i * k" using assms(4) by simp
  also have "Suc i * k \<le> k * k" using assms(3) by (simp add: Suc_leI mult_le_mono1 del: mult_Suc)
  finally have idx: "i * k + j < length (elems a)" using assms(2) by simp
  show "at2 (np_log_array a) i j = np_log (at2 a i j)"
    using idx assms(1) by (simp add: at2_def np_log_array_def)
  show "at2 a i j \<in> set (elems a)" using idx assms(1) by (simp add: at2_def)
qed

lemma viterbi_scores_not_nan:
  assumes init: "HMM_init ws tr d = Inr m" and ws: "ws \<noteq> []" and y: "y \<noteq> []"
    and valid: "length (elems tr) = length ws * length ws"
    and tr0: "\<forall>x\<in>set (elems tr). 0 \<le> x" and p00: "\<forall>x\<in>set (p0 m). 0 \<le> x"
    and tab: "viterbi_tables m y = Inr (pathStates, pathScores)"
  shows "\<forall>t<length y. \<forall>j<K m. pathScores ! t ! j \<noteq> NaN"
proof -
  note fl = init_fields[OF init]
  from viterbi_run[OF init ws y] tab
  have r: "\<forall>j<K m. pathScores ! 0 ! j = np_add (logp0 m ! j) (Fin (log_lik m (y ! 0) ! j))"
    "\<forall>t j. 1 \<le> t \<and> t < length y \<and> j < K m \<longrightarrow>
       is_first_max (spec_candidates m (pathScores ! (t - 1)) j) (pathStates ! t ! j) \<and>
       pathScores ! t ! j =
         np_add (spec_candidates m (pathScores ! (t - 1)) j ! (pathStates ! t ! j))
                (Fin (log_lik m (y ! t) ! j))"
    by auto
  have lg: "at2 (logP m) i j \<noteq> NaN" if "i < K m" "j < K m" for i j
  proof -
    have "at2 (logP m) i j = np_log (at2 tr i j)" "at2 tr i j \<in> set (elems tr)"
      using at2_np_log_array[OF fl(5) valid, of i j] that fl(2,4) by simp_all
    then show ?thesis using tr0 by (simp add: np_log_not_NaN)
  qed
  have "t < length y \<Longrightarrow> \<forall>j<K m. pathScores ! t ! j \<noteq> NaN" for t
  proof (induction t)
    case 0
    have "logp0 m ! j \<noteq> NaN" if "j < K m" for j
      using that fl(2,6,7) p00 by (simp add: np_log_not_NaN)
    then show ?case using r(1) by (simp add: np_add_NaN)
  next
    case (Suc t)
    then have ih: "\<forall>i<K m. pathScores ! t ! i \<noteq> NaN" by simp
    show ?case
    proof (intro allI impI)
      fix j assume j: "j < K m"
      let ?c = "spec_candidates m (pathScores ! t) j"
      from r(2)[rule_format, of "Suc t" j] Suc.prems j
      have fm: "is_first_max ?c (pathStates ! Suc t ! j)"
        and sc: "pathScores ! Suc t ! j =
                   np_add (?c ! (pathStates ! Suc t ! j)) (Fin (log_lik m (y ! Suc t) ! j))"
        by simp_all
      have i: "pathStates ! Suc t ! j < K m"
        using fm by (simp add: is_first_max_def spec_candidates_def)
      then have "?c ! (pathStates ! Suc t ! j) \<noteq> NaN"
        using ih lg[OF i j] by (simp add: spec_candidates_def np_add_NaN)
      then show "pathScores ! Suc t ! j \<noteq> NaN" using sc by (simp add: np_add_NaN)
    qed
  qed
  then show ?thesis by blast
qed

end
